theory Spec2Isabelle
  imports Complex_Main
begin

section \<open>Discrete factors of pgmpy: \<open>pgmpy/factors/Factor.py\<close>\<close>

text \<open>
  The module is Python 2 code over numpy (\<open>ind/card\<close> on integers is floor division,
  \<open>map\<close> returns a list). It starts with \<open>np.seterr(divide='raise')\<close>: an operation
  that sets the IEEE division-by-zero flag raises \<open>FloatingPointError\<close>; the invalid-operation
  flag (set by \<open>0.0/0.0\<close>) keeps numpy's default, a warning, and the operation returns
  \<open>nan\<close>.

  Integers are modelled by \<open>int\<close> (\<open>div\<close> and \<open>mod\<close> on \<open>int\<close> round towards minus
  infinity, as Python's do); the 64-bit wrap-around of numpy is not modelled, a buffer of
  \<open>product(cardinality)\<close> doubles being far below \<open>2^63\<close> elements. A double is modelled by
  \<open>fval\<close>: a finite value is a real number, and \<open>NaN\<close> is the result of an invalid operation.
  Rounding, overflow, infinities and the sign of zero are not modelled.
\<close>

subsection \<open>Errors and Python helpers\<close>

datatype error =
    ValueError string
  | TypeError string
  | IndexError string
  | KeyError string
  | FloatingPointError string
  | SizeError string
  | ScopeError string

datatype fval = Fin real | NaN

fun mapM_err :: "('a \<Rightarrow> error + 'b) \<Rightarrow> 'a list \<Rightarrow> error + 'b list" where
  "mapM_err g [] = Inr []"
| "mapM_err g (x # xs) =
     (case g x of Inl e \<Rightarrow> Inl e
      | Inr y \<Rightarrow> (case mapM_err g xs of Inl e \<Rightarrow> Inl e | Inr ys \<Rightarrow> Inr (y # ys)))"

text \<open>\<open>xs[i]\<close> on a Python list or a numpy array: a negative index counts from the end.\<close>

definition norm_index :: "nat \<Rightarrow> int \<Rightarrow> nat option" where
  "norm_index n i =
     (if 0 \<le> i \<and> i < int n then Some (nat i)
      else if i < 0 \<and> 0 \<le> int n + i then Some (nat (int n + i))
      else None)"

definition py_index :: "'a list \<Rightarrow> int \<Rightarrow> error + 'a" where
  "py_index xs i =
     (case norm_index (length xs) i of
        None \<Rightarrow> Inl (IndexError ''index out of range'')
      | Some k \<Rightarrow> Inr (xs ! k))"

text \<open>\<open>xs.index(x)\<close>.\<close>

fun list_index :: "'a list \<Rightarrow> 'a \<Rightarrow> error + int" where
  "list_index [] x = Inl (ValueError ''not in list'')"
| "list_index (y # ys) x =
     (if y = x then Inr 0
      else (case list_index ys x of Inl e \<Rightarrow> Inl e | Inr k \<Rightarrow> Inr (k + 1)))"

text \<open>\<open>range(n)\<close>, \<open>range(a, b)\<close> and \<open>range(a, b, step)\<close>.\<close>

definition py_range :: "int \<Rightarrow> int list" where
  "py_range n = map int [0..<nat n]"

definition py_range2 :: "int \<Rightarrow> int \<Rightarrow> int list" where
  "py_range2 a b = map (\<lambda>k. a + int k) [0..<nat (b - a)]"

definition py_range3 :: "int \<Rightarrow> int \<Rightarrow> int \<Rightarrow> error + int list" where
  "py_range3 a b step =
     (if step = 0 then Inl (ValueError ''range() arg 3 must not be zero'')
      else if 0 < step then Inr (map (\<lambda>k. a + int k * step) [0..<nat ((b - a + step - 1) div step)])
      else Inr (map (\<lambda>k. a + int k * step) [0..<nat ((a - b - step - 1) div (- step))]))"

text \<open>\<open>str(index)\<close> of an integer.\<close>

definition digit_char :: "nat \<Rightarrow> char" where
  "digit_char d = ''0123456789'' ! d"

function str_nat :: "nat \<Rightarrow> string" where
  "str_nat n = (if n < 10 then [digit_char n] else str_nat (n div 10) @ [digit_char (n mod 10)])"
  by pat_completeness auto
termination
  by (relation "measure id") auto

declare str_nat.simps [simp del]

definition str_int :: "int \<Rightarrow> string" where
  "str_int i = (if i < 0 then CHR ''-'' # str_nat (nat (- i)) else str_nat (nat i))"

text \<open>\<open>int(s)\<close> of a string: surrounding white space, an optional sign, decimal digits.\<close>

definition is_space :: "char \<Rightarrow> bool" where
  "is_space c = (c \<in> set [CHR '' '', CHR 0x09, CHR 0x0A, CHR 0x0B, CHR 0x0C, CHR 0x0D])"

definition strip :: "string \<Rightarrow> string" where
  "strip s = rev (dropWhile is_space (rev (dropWhile is_space s)))"

definition digit_val :: "char \<Rightarrow> nat option" where
  "digit_val c =
     (let k = (of_char c :: nat) in if 48 \<le> k \<and> k \<le> 57 then Some (k - 48) else None)"

fun parse_digits :: "nat \<Rightarrow> string \<Rightarrow> nat option" where
  "parse_digits acc [] = Some acc"
| "parse_digits acc (c # cs) =
     (case digit_val c of None \<Rightarrow> None | Some d \<Rightarrow> parse_digits (10 * acc + d) cs)"

definition parse_unsigned :: "string \<Rightarrow> nat option" where
  "parse_unsigned s = (if s = [] then None else parse_digits 0 s)"

definition py_int :: "string \<Rightarrow> error + int" where
  "py_int s =
     (let bad = Inl (ValueError ''invalid literal for int() with base 10'') in
      case strip s of
        [] \<Rightarrow> bad
      | c # cs \<Rightarrow>
          if c = CHR ''-'' then (case parse_unsigned cs of None \<Rightarrow> bad | Some n \<Rightarrow> Inr (- int n))
          else if c = CHR ''+'' then (case parse_unsigned cs of None \<Rightarrow> bad | Some n \<Rightarrow> Inr (int n))
          else (case parse_unsigned (c # cs) of None \<Rightarrow> bad | Some n \<Rightarrow> Inr (int n)))"

text \<open>\<open>s.split(sep)\<close> with a one-character separator.\<close>

fun split_on :: "char \<Rightarrow> string \<Rightarrow> string \<Rightarrow> string list" where
  "split_on sep cur [] = [rev cur]"
| "split_on sep cur (c # cs) =
     (if c = sep then rev cur # split_on sep [] cs else split_on sep (c # cur) cs)"

definition py_split :: "string \<Rightarrow> char \<Rightarrow> string list" where
  "py_split s sep = split_on sep [] s"

subsection \<open>numpy helpers\<close>

text \<open>Integer \<open>/\<close> and \<open>%\<close> of numpy under \<open>np.seterr(divide='raise')\<close>.\<close>

definition np_floordiv :: "int \<Rightarrow> int \<Rightarrow> error + int" where
  "np_floordiv a b = (if b = 0 then Inl (FloatingPointError ''divide by zero'') else Inr (a div b))"

definition np_mod :: "int \<Rightarrow> int \<Rightarrow> error + int" where
  "np_mod a b = (if b = 0 then Inl (FloatingPointError ''divide by zero'') else Inr (a mod b))"

fun cumprod_from :: "int \<Rightarrow> int list \<Rightarrow> int list" where
  "cumprod_from acc [] = []"
| "cumprod_from acc (x # xs) = (acc * x) # cumprod_from (acc * x) xs"

definition np_cumprod :: "int list \<Rightarrow> int list" where
  "np_cumprod xs = cumprod_from 1 xs"

definition np_prod :: "int list \<Rightarrow> int" where
  "np_prod xs = prod_list xs"

text \<open>\<open>np.delete(arr, i)\<close> with an integer \<open>i\<close>.\<close>

definition np_delete :: "'a list \<Rightarrow> int \<Rightarrow> error + 'a list" where
  "np_delete xs i =
     (case norm_index (length xs) i of
        None \<Rightarrow> Inl (IndexError ''index out of bounds'')
      | Some k \<Rightarrow> Inr (take k xs @ drop (Suc k) xs))"

text \<open>
  Elementwise operations on one-dimensional arrays broadcast an operand of length one;
  any other difference of lengths is an error.
\<close>

definition np_broadcast :: "('a \<Rightarrow> 'b \<Rightarrow> 'c) \<Rightarrow> 'a list \<Rightarrow> 'b list \<Rightarrow> error + 'c list" where
  "np_broadcast g xs ys =
     (if length xs = length ys then Inr (map2 g xs ys)
      else if length ys = 1 then Inr (map (\<lambda>x. g x (hd ys)) xs)
      else if length xs = 1 then Inr (map (\<lambda>y. g (hd xs) y) ys)
      else Inl (ValueError ''operands could not be broadcast together''))"

text \<open>\<open>a += b\<close> on arrays: the shape of \<open>a\<close> is kept.\<close>

definition np_iadd :: "fval list \<Rightarrow> fval list \<Rightarrow> (fval \<Rightarrow> fval \<Rightarrow> fval) \<Rightarrow> error + fval list" where
  "np_iadd xs ys g =
     (if length xs = length ys then Inr (map2 g xs ys)
      else if length ys = 1 then Inr (map (\<lambda>x. g x (hd ys)) xs)
      else Inl (ValueError ''operands could not be broadcast together''))"

text \<open>\<open>arr[idx]\<close> with an array of integer indices.\<close>

definition np_take :: "'a list \<Rightarrow> int list \<Rightarrow> error + 'a list" where
  "np_take xs idx = mapM_err (py_index xs) idx"

subsection \<open>Arithmetic on doubles\<close>

fun fadd :: "fval \<Rightarrow> fval \<Rightarrow> fval" where
  "fadd (Fin x) (Fin y) = Fin (x + y)"
| "fadd _ _ = NaN"

fun fmul :: "fval \<Rightarrow> fval \<Rightarrow> fval" where
  "fmul (Fin x) (Fin y) = Fin (x * y)"
| "fmul _ _ = NaN"

text \<open>
  Division under \<open>np.seterr(divide='raise')\<close>: a finite non-zero value divided by zero
  sets the division-by-zero flag and raises; zero divided by zero is an invalid operation,
  which returns \<open>nan\<close> and does not raise.
\<close>

fun fdiv :: "fval \<Rightarrow> fval \<Rightarrow> error + fval" where
  "fdiv (Fin x) (Fin y) =
     (if y \<noteq> 0 then Inr (Fin (x / y))
      else if x = 0 then Inr NaN
      else Inl (FloatingPointError ''divide by zero encountered in double_scalars''))"
| "fdiv _ _ = Inr NaN"

definition np_sum :: "fval list \<Rightarrow> fval" where
  "np_sum xs = foldl fadd (Fin 0) xs"

subsection \<open>The class \<open>Factor\<close>\<close>

text \<open>
  \<open>variables\<close> is the \<open>OrderedDict\<close> from a variable to its list of state labels, as an
  association list in insertion order.
\<close>

record Factor =
  variables :: "(string \<times> string list) list"
  cardinality :: "int list"
  fvalues :: "fval list"

fun od_set :: "('k \<times> 'v) list \<Rightarrow> 'k \<Rightarrow> 'v \<Rightarrow> ('k \<times> 'v) list" where
  "od_set [] k v = [(k, v)]"
| "od_set ((k', v') # d) k v = (if k' = k then (k, v) # d else (k', v') # od_set d k v)"

definition od_keys :: "('k \<times> 'v) list \<Rightarrow> 'k list" where
  "od_keys d = map fst d"

definition od_get :: "(string \<times> 'v) list \<Rightarrow> string \<Rightarrow> error + 'v" where
  "od_get d k = (case map_of d k of None \<Rightarrow> Inl (KeyError k) | Some v \<Rightarrow> Inr v)"

definition od_del :: "(string \<times> 'v) list \<Rightarrow> string \<Rightarrow> error + (string \<times> 'v) list" where
  "od_del d k =
     (if k \<in> set (od_keys d) then Inr (filter (\<lambda>p. fst p \<noteq> k) d) else Inl (KeyError k))"

definition state_labels :: "string \<Rightarrow> int \<Rightarrow> string list" where
  "state_labels variable c = map (\<lambda>index. variable @ ''_'' @ str_int index) (py_range c)"

definition Factor_init :: "string list \<Rightarrow> int list \<Rightarrow> fval list \<Rightarrow> error + Factor" where
  "Factor_init vars cards value =
     (if length vars \<noteq> length cards
      then Inl (ValueError ''The size of variables and cardinality should be same'')
      else
        let d = foldl (\<lambda>d (variable, c). od_set d variable (state_labels variable c)) []
                  (zip vars cards)
        in if int (length value) \<noteq> np_prod cards then Inl (SizeError ''Incompetant value array'')
           else Inr \<lparr>variables = d, cardinality = cards, fvalues = value\<rparr>)"

definition scope :: "Factor \<Rightarrow> string list" where
  "scope f = od_keys (variables f)"

subsection \<open>\<open>Factor.assignment\<close>\<close>

text \<open>
  The inner loop: \<open>for card in self.cardinality[::-1]: assign.insert(0, ind % card);
  ind = ind/card\<close>.
\<close>

fun assign_loop :: "int list \<Rightarrow> int \<Rightarrow> int list \<Rightarrow> error + int list" where
  "assign_loop [] ind assign = Inr assign"
| "assign_loop (c # cards) ind assign =
     (case np_mod ind c of Inl e \<Rightarrow> Inl e
      | Inr m \<Rightarrow> (case np_floordiv ind c of Inl e \<Rightarrow> Inl e
                 | Inr q \<Rightarrow> assign_loop cards q (m # assign)))"

definition assign_digits :: "Factor \<Rightarrow> int \<Rightarrow> error + int list" where
  "assign_digits f ind = assign_loop (rev (cardinality f)) ind []"

definition assign_labels :: "Factor \<Rightarrow> int list \<Rightarrow> error + string list" where
  "assign_labels f vals =
     mapM_err (\<lambda>(key, val). case od_get (variables f) key of Inl e \<Rightarrow> Inl e
                             | Inr labels \<Rightarrow> py_index labels val)
       (zip (od_keys (variables f)) vals)"

definition assignment :: "Factor \<Rightarrow> int list \<Rightarrow> error + string list list" where
  "assignment f index =
     (let max_index = np_prod (cardinality f) - 1 in
      if \<not> (\<forall>i \<in> set index. i \<le> max_index)
      then Inl (IndexError ''Index greater than max possible index'')
      else (case mapM_err (assign_digits f) index of Inl e \<Rightarrow> Inl e
            | Inr assignments \<Rightarrow> mapM_err (assign_labels f) assignments))"

definition get_cardinality :: "Factor \<Rightarrow> string \<Rightarrow> error + int" where
  "get_cardinality f variable =
     (if variable \<notin> set (od_keys (variables f)) then Inl (ScopeError (variable @ '' not in scope''))
      else (case list_index (od_keys (variables f)) variable of Inl e \<Rightarrow> Inl e
            | Inr k \<Rightarrow> py_index (cardinality f) k))"

subsection \<open>Marginalization\<close>

text \<open>
  \<open>cum_cardinality = (np.product(cardinality) / np.concatenate(([1], np.cumprod(cardinality))))\<close>:
  entry \<open>k\<close> is the product of the cardinalities from position \<open>k\<close> on.
\<close>

definition cum_cardinality :: "int list \<Rightarrow> error + int list" where
  "cum_cardinality cards = mapM_err (np_floordiv (np_prod cards)) (1 # np_cumprod cards)"

text \<open>
  \<open>[j for i in range(0, num_elements, cum_cardinality[index])
      for j in range(i, i+cum_cardinality[index+1])]\<close>
\<close>

definition block_indices :: "int \<Rightarrow> int \<Rightarrow> int \<Rightarrow> error + int list" where
  "block_indices num_elements outer inner =
     (case py_range3 0 num_elements outer of Inl e \<Rightarrow> Inl e
      | Inr starts \<Rightarrow> Inr (concat (map (\<lambda>i. py_range2 i (i + inner)) starts)))"

definition np_zeros :: "int \<Rightarrow> error + fval list" where
  "np_zeros n = (if n < 0 then Inl (ValueError ''negative dimensions are not allowed'')
                 else Inr (replicate (nat n) (Fin 0)))"

text \<open>
  The accumulation loop
  \<open>for i in range(self.cardinality[index]):
      marg_factor += self.values[np.array(sum_index) + i*cum_cardinality[index+1]]\<close>
\<close>

fun marg_accumulate :: "fval list \<Rightarrow> int list \<Rightarrow> int \<Rightarrow> int list \<Rightarrow> fval list \<Rightarrow> error + fval list" where
  "marg_accumulate vals sum_index inner [] marg_factor = Inr marg_factor"
| "marg_accumulate vals sum_index inner (i # is) marg_factor =
     (case np_take vals (map (\<lambda>j. j + i * inner) sum_index) of Inl e \<Rightarrow> Inl e
      | Inr block \<Rightarrow> (case np_iadd marg_factor block fadd of Inl e \<Rightarrow> Inl e
                     | Inr m \<Rightarrow> marg_accumulate vals sum_index inner is m))"

definition marginalize_single_variable :: "Factor \<Rightarrow> string \<Rightarrow> error + fval list" where
  "marginalize_single_variable f variable =
     (case list_index (od_keys (variables f)) variable of Inl e \<Rightarrow> Inl e
      | Inr index \<Rightarrow>
     (case cum_cardinality (cardinality f) of Inl e \<Rightarrow> Inl e
      | Inr cum \<Rightarrow>
     (case py_index cum 0 of Inl e \<Rightarrow> Inl e
      | Inr num_elements \<Rightarrow>
     (case py_index cum index of Inl e \<Rightarrow> Inl e
      | Inr outer \<Rightarrow>
     (case py_index cum (index + 1) of Inl e \<Rightarrow> Inl e
      | Inr inner \<Rightarrow>
     (case block_indices num_elements outer inner of Inl e \<Rightarrow> Inl e
      | Inr sum_index \<Rightarrow>
     (case py_index (cardinality f) index of Inl e \<Rightarrow> Inl e
      | Inr c \<Rightarrow>
     (case np_floordiv num_elements c of Inl e \<Rightarrow> Inl e
      | Inr n \<Rightarrow>
     (case np_zeros n of Inl e \<Rightarrow> Inl e
      | Inr marg_factor \<Rightarrow>
          marg_accumulate (fvalues f) sum_index inner (py_range c) marg_factor)))))))))"

text \<open>
  The elimination loop of \<open>marginalize\<close> on the object \<open>factor\<close>. An exception leaves the
  object as the statements before it made it: the result is the object and the exception,
  if any.
\<close>

fun marginalize_loop :: "Factor \<Rightarrow> string list \<Rightarrow> Factor \<times> error option" where
  "marginalize_loop factor [] = (factor, None)"
| "marginalize_loop factor (variable # rest) =
     (case marginalize_single_variable factor variable of Inl e \<Rightarrow> (factor, Some e)
      | Inr vals \<Rightarrow>
          let f1 = factor\<lparr>fvalues := vals\<rparr> in
          (case list_index (od_keys (variables f1)) variable of Inl e \<Rightarrow> (f1, Some e)
           | Inr index \<Rightarrow>
          (case od_del (variables f1) variable of Inl e \<Rightarrow> (f1, Some e)
           | Inr d \<Rightarrow>
              let f2 = f1\<lparr>variables := d\<rparr> in
              (case np_delete (cardinality f2) index of Inl e \<Rightarrow> (f2, Some e)
               | Inr cards \<Rightarrow> marginalize_loop (f2\<lparr>cardinality := cards\<rparr>) rest))))"

subsection \<open>Reduction\<close>

text \<open>
  The selection of \<open>reduce\<close>:
  \<open>factor.values[np.array(index_arr) + int(value_index) * cum_cardinality[index+1]]\<close>
\<close>

definition reduce_select :: "Factor \<Rightarrow> int \<Rightarrow> int \<Rightarrow> error + fval list" where
  "reduce_select factor index state =
     (case cum_cardinality (cardinality factor) of Inl e \<Rightarrow> Inl e
      | Inr cum \<Rightarrow>
     (case py_index cum 0 of Inl e \<Rightarrow> Inl e
      | Inr num_elements \<Rightarrow>
     (case py_index cum index of Inl e \<Rightarrow> Inl e
      | Inr outer \<Rightarrow>
     (case py_index cum (index + 1) of Inl e \<Rightarrow> Inl e
      | Inr inner \<Rightarrow>
     (case block_indices num_elements outer inner of Inl e \<Rightarrow> Inl e
      | Inr index_arr \<Rightarrow>
          np_take (fvalues factor) (map (\<lambda>j. j + state * inner) index_arr))))))"

text \<open>The checks of one token, up to the comparison with the cardinality.\<close>

definition reduce_check :: "Factor \<Rightarrow> string \<Rightarrow> error + (string \<times> int \<times> int)" where
  "reduce_check factor value =
     (if CHR ''_'' \<notin> set value
      then Inl (TypeError ''Values should be in the form of variablename_index'')
      else (case py_split value (CHR ''_'') of
        [var, value_index] \<Rightarrow>
          (if var \<notin> set (od_keys (variables factor))
           then Inl (ScopeError (var @ '' not in scope''))
           else (case list_index (od_keys (variables factor)) var of Inl e \<Rightarrow> Inl e
            | Inr index \<Rightarrow>
           (case py_int value_index of Inl e \<Rightarrow> Inl e
            | Inr state \<Rightarrow>
           (case py_index (cardinality factor) index of Inl e \<Rightarrow> Inl e
            | Inr c \<Rightarrow>
               if \<not> state < c
               then Inl (SizeError ''Value is greater than max possible value'')
               else Inr (var, index, state)))))
      | _ \<Rightarrow> Inl (ValueError ''wrong number of values to unpack'')))"

text \<open>One iteration of the loop of \<open>reduce\<close>, for one token \<open>value\<close>.\<close>

definition reduce_step :: "Factor \<Rightarrow> string \<Rightarrow> Factor \<times> error option" where
  "reduce_step factor value =
     (case reduce_check factor value of Inl e \<Rightarrow> (factor, Some e)
      | Inr (var, index, state) \<Rightarrow>
     (case reduce_select factor index state of Inl e \<Rightarrow> (factor, Some e)
      | Inr vals \<Rightarrow>
          let f1 = factor\<lparr>fvalues := vals\<rparr> in
          (case od_del (variables f1) var of Inl e \<Rightarrow> (f1, Some e)
           | Inr d \<Rightarrow>
              let f2 = f1\<lparr>variables := d\<rparr> in
              (case np_delete (cardinality f2) index of Inl e \<Rightarrow> (f2, Some e)
               | Inr cards \<Rightarrow> (f2\<lparr>cardinality := cards\<rparr>, None)))))"

fun reduce_loop :: "Factor \<Rightarrow> string list \<Rightarrow> Factor \<times> error option" where
  "reduce_loop factor [] = (factor, None)"
| "reduce_loop factor (value # rest) =
     (case reduce_step factor value of
        (f', Some e) \<Rightarrow> (f', Some e)
      | (f', None) \<Rightarrow> reduce_loop f' rest)"

subsection \<open>Normalization\<close>

definition normalize_values :: "fval list \<Rightarrow> error + fval list" where
  "normalize_values vals = mapM_err (\<lambda>x. fdiv x (np_sum vals)) vals"

subsection \<open>The methods on objects\<close>

text \<open>
  Factor objects live in a heap, a list indexed by address; the constructor allocates at
  the end. The constructor copies the arrays it is given (\<open>np.array\<close>) and builds a new
  \<open>OrderedDict\<close>, and the methods rebind the arrays of an object and never write into
  them, so no two objects share a part and a field of an object is its value.

  A method returns the new heap and its outcome: an exception, or the value returned,
  which is \<open>None\<close> in in-place mode and the address of the new object in copy mode.
\<close>

type_synonym heap = "Factor list"

definition finish :: "heap \<Rightarrow> error option \<Rightarrow> nat option \<Rightarrow> heap \<times> (error + nat option)" where
  "finish h err res = (case err of Some e \<Rightarrow> (h, Inl e) | None \<Rightarrow> (h, Inr res))"

definition marginalize :: "heap \<Rightarrow> nat \<Rightarrow> string list \<Rightarrow> bool \<Rightarrow> heap \<times> (error + nat option)" where
  "marginalize h self vars inplace =
     (let s = h ! self in
      case find (\<lambda>variable. variable \<notin> set (od_keys (variables s))) vars of
        Some variable \<Rightarrow> (h, Inl (ScopeError (variable @ '' not in scope'')))
      | None \<Rightarrow>
          if inplace
          then (case marginalize_loop s vars of (f', err) \<Rightarrow> finish (h[self := f']) err None)
          else (case Factor_init (scope s) (cardinality s) (fvalues s) of
                  Inl e \<Rightarrow> (h, Inl e)
                | Inr factor \<Rightarrow>
                    (case marginalize_loop factor vars of
                       (f', err) \<Rightarrow> finish (h @ [f']) err (Some (length h)))))"

definition reduce :: "heap \<Rightarrow> nat \<Rightarrow> string list \<Rightarrow> bool \<Rightarrow> heap \<times> (error + nat option)" where
  "reduce h self vals inplace =
     (let s = h ! self in
      if inplace
      then (case reduce_loop s vals of (f', err) \<Rightarrow> finish (h[self := f']) err None)
      else (case Factor_init (scope s) (cardinality s) (fvalues s) of
              Inl e \<Rightarrow> (h, Inl e)
            | Inr factor \<Rightarrow>
                (case reduce_loop factor vals of
                   (f', err) \<Rightarrow> finish (h @ [f']) err (Some (length h)))))"

definition normalize :: "heap \<Rightarrow> nat \<Rightarrow> bool \<Rightarrow> heap \<times> (error + nat option)" where
  "normalize h self inplace =
     (let s = h ! self in
      if inplace
      then (case normalize_values (fvalues s) of Inl e \<Rightarrow> (h, Inl e)
            | Inr vals \<Rightarrow> (h[self := s\<lparr>fvalues := vals\<rparr>], Inr None))
      else (case Factor_init (scope s) (cardinality s) (fvalues s) of
              Inl e \<Rightarrow> (h, Inl e)
            | Inr factor \<Rightarrow>
                (case normalize_values (fvalues factor) of Inl e \<Rightarrow> (h @ [factor], Inl e)
                 | Inr vals \<Rightarrow> (h @ [factor\<lparr>fvalues := vals\<rparr>], Inr (Some (length h))))))"

subsection \<open>Binary combination\<close>

datatype operation = M | D

text \<open>
  \<open>np.delete(np.concatenate((np.array([1]), np.cumprod(cardinality[::-1])))[::-1], 0)\<close>:
  the place value of each variable in the flat index.
\<close>

definition phi_cumprod :: "int list \<Rightarrow> int list" where
  "phi_cumprod cards = tl (rev (1 # np_cumprod (rev cards)))"

text \<open>\<open>np.sum(index[phi_indexes] * phi_cumprod)\<close>\<close>

definition cell_index :: "int list \<Rightarrow> int list \<Rightarrow> int list \<Rightarrow> error + int" where
  "cell_index index phi_indexes cumprod =
     (case np_take index phi_indexes of Inl e \<Rightarrow> Inl e
      | Inr digits \<Rightarrow> (case np_broadcast (*) digits cumprod of Inl e \<Rightarrow> Inl e
                      | Inr ps \<Rightarrow> Inr (sum_list ps)))"

text \<open>\<open>itertools.product\<close> of lists: the last position varies fastest.\<close>

fun iter_product :: "'a list list \<Rightarrow> 'a list list" where
  "iter_product [] = [[]]"
| "iter_product (r # rs) = concat (map (\<lambda>x. map ((#) x) (iter_product rs)) r)"

text \<open>The value of one cell of the result, for the two operations.\<close>

definition cell_value :: "operation \<Rightarrow> fval \<Rightarrow> fval \<Rightarrow> fval" where
  "cell_value operation a b =
     (case operation of
        M \<Rightarrow> fmul a b
      | D \<Rightarrow> (case fdiv a b of Inl e \<Rightarrow> Fin 0 | Inr q \<Rightarrow> q))"

definition bivar_cell :: "Factor \<Rightarrow> Factor \<Rightarrow> operation \<Rightarrow> int list \<Rightarrow> int list \<Rightarrow> int list \<Rightarrow> int list
    \<Rightarrow> int list \<Rightarrow> error + fval" where
  "bivar_cell phi1 phi2 operation phi1_indexes phi2_indexes phi1_cumprod phi2_cumprod index =
     (case cell_index index phi1_indexes phi1_cumprod of Inl e \<Rightarrow> Inl e
      | Inr k1 \<Rightarrow> (case py_index (fvalues phi1) k1 of Inl e \<Rightarrow> Inl e
      | Inr a \<Rightarrow> (case cell_index index phi2_indexes phi2_cumprod of Inl e \<Rightarrow> Inl e
      | Inr k2 \<Rightarrow> (case py_index (fvalues phi2) k2 of Inl e \<Rightarrow> Inl e
      | Inr b \<Rightarrow> Inr (cell_value operation a b)))))"

definition bivar_factor_operation :: "Factor \<Rightarrow> Factor \<Rightarrow> operation \<Rightarrow> error + Factor" where
  "bivar_factor_operation phi1 phi2 operation =
     (let phi1_vars = od_keys (variables phi1);
          phi2_vars = od_keys (variables phi2);
          common_var_list = filter (\<lambda>var. var \<in> set phi2_vars) phi1_vars
      in if common_var_list \<noteq> [] then
           (let vars = phi1_vars @ filter (\<lambda>var. var \<notin> set common_var_list) phi2_vars in
            case mapM_err (get_cardinality phi2)
                   (filter (\<lambda>var. var \<notin> set common_var_list) phi2_vars) of
              Inl e \<Rightarrow> Inl e
            | Inr cards2 \<Rightarrow>
               (let cards = cardinality phi1 @ cards2;
                    phi1_indexes = py_range (int (length (variables phi1)))
                in case mapM_err (list_index vars) phi2_vars of Inl e \<Rightarrow> Inl e
                   | Inr phi2_indexes \<Rightarrow>
                      (case mapM_err
                              (bivar_cell phi1 phi2 operation phi1_indexes phi2_indexes
                                 (phi_cumprod (cardinality phi1)) (phi_cumprod (cardinality phi2)))
                              (iter_product (map py_range cards)) of
                         Inl e \<Rightarrow> Inl e
                       | Inr vals \<Rightarrow> Factor_init vars cards vals)))
         else
           (case operation of
              D \<Rightarrow> Inl (ValueError ''factors Division not defined for factors with no common scope'')
            | M \<Rightarrow>
                Factor_init (phi1_vars @ phi2_vars) (cardinality phi1 @ cardinality phi2)
                  (concat (map (\<lambda>value. map (fmul value) (fvalues phi2)) (fvalues phi1)))))"

text \<open>\<open>functools.reduce\<close> over the arguments, which has no initial value.\<close>

fun factor_product_from :: "Factor \<Rightarrow> Factor list \<Rightarrow> error + Factor" where
  "factor_product_from phi1 [] = Inr phi1"
| "factor_product_from phi1 (phi2 # rest) =
     (case bivar_factor_operation phi1 phi2 M of Inl e \<Rightarrow> Inl e
      | Inr phi \<Rightarrow> factor_product_from phi rest)"

definition factor_product :: "Factor list \<Rightarrow> error + Factor" where
  "factor_product args =
     (case args of
        [] \<Rightarrow> Inl (TypeError ''reduce() of empty sequence with no initial value'')
      | phi1 # rest \<Rightarrow> factor_product_from phi1 rest)"

definition factor_divide :: "Factor \<Rightarrow> Factor \<Rightarrow> error + Factor" where
  "factor_divide phi1 phi2 = bivar_factor_operation phi1 phi2 D"

definition product :: "Factor \<Rightarrow> Factor list \<Rightarrow> error + Factor" where
  "product self factors = factor_product (self # factors)"

definition divide :: "Factor \<Rightarrow> Factor \<Rightarrow> error + Factor" where
  "divide self factor = factor_divide self factor"

subsection \<open>Well-formed factors\<close>

text \<open>
  The invariant that the constructor establishes on distinct variables and positive
  cardinalities: as many cardinalities as variables, the labels of each variable derived
  from its cardinality, and one value for each joint assignment.
\<close>

definition wf_factor :: "Factor \<Rightarrow> bool" where
  "wf_factor f \<longleftrightarrow>
     distinct (od_keys (variables f)) \<and>
     length (variables f) = length (cardinality f) \<and>
     (\<forall>c \<in> set (cardinality f). 0 < c) \<and>
     variables f =
       map (\<lambda>(v, c). (v, state_labels v c)) (zip (od_keys (variables f)) (cardinality f)) \<and>
     int (length (fvalues f)) = np_prod (cardinality f)"

text \<open>The place values of a cardinality vector, by recursion: what \<open>phi_cumprod\<close> computes.\<close>

fun strides :: "int list \<Rightarrow> int list" where
  "strides [] = []"
| "strides (c # cs) = prod_list cs # strides cs"

text \<open>The products of the cardinalities from each position on: what \<open>cum_cardinality\<close> computes.\<close>

fun suffix_prods :: "int list \<Rightarrow> int list" where
  "suffix_prods [] = [1]"
| "suffix_prods (c # cs) = prod_list (c # cs) # suffix_prods cs"

subsection \<open>Valid arguments of \<open>reduce\<close>\<close>

text \<open>
  A token \<open>variable_index\<close> is valid for a factor when it has one underscore, names a
  variable of the scope and a state index from 0 up to the cardinality of that variable.
\<close>

definition token_var :: "string \<Rightarrow> string" where
  "token_var value = hd (py_split value (CHR ''_''))"

definition valid_token :: "Factor \<Rightarrow> string \<Rightarrow> bool" where
  "valid_token f value =
     (CHR ''_'' \<in> set value \<and>
      (case py_split value (CHR ''_'') of
         [var, value_index] \<Rightarrow>
           (case py_int value_index of
              Inl e \<Rightarrow> False
            | Inr state \<Rightarrow>
                0 \<le> state \<and>
                list_ex (\<lambda>(x, c). x = var \<and> state < c) (zip (scope f) (cardinality f)))
       | _ \<Rightarrow> False))"

subsection \<open>The factors of the documented examples\<close>

text \<open>\<open>Factor(['x1', 'x2', 'x3'], [2, 3, 2], range(12))\<close>\<close>

definition phi_x1x2x3 :: Factor where
  "phi_x1x2x3 =
     \<lparr>variables = [(''x1'', [''x1_0'', ''x1_1'']), (''x2'', [''x2_0'', ''x2_1'', ''x2_2'']),
                   (''x3'', [''x3_0'', ''x3_1''])],
      cardinality = [2, 3, 2],
      fvalues = [Fin 0, Fin 1, Fin 2, Fin 3, Fin 4, Fin 5, Fin 6, Fin 7, Fin 8, Fin 9, Fin 10,
                 Fin 11]\<rparr>"

text \<open>\<open>Factor(['x3', 'x1'], [2, 2], [x+1 for x in range(4)])\<close>\<close>

definition phi_x3x1 :: Factor where
  "phi_x3x1 =
     \<lparr>variables = [(''x3'', [''x3_0'', ''x3_1'']), (''x1'', [''x1_0'', ''x1_1''])],
      cardinality = [2, 2],
      fvalues = [Fin 1, Fin 2, Fin 3, Fin 4]\<rparr>"

text \<open>\<open>Factor(['x1'], [2], [0, 1])\<close>, \<open>Factor(['x1'], [1], [1])\<close> and \<open>Factor(['x1'], [1], [0])\<close>\<close>

definition phi_zero_one :: Factor where
  "phi_zero_one =
     \<lparr>variables = [(''x1'', [''x1_0'', ''x1_1''])], cardinality = [2], fvalues = [Fin 0, Fin 1]\<rparr>"

definition phi_one :: Factor where
  "phi_one = \<lparr>variables = [(''x1'', [''x1_0''])], cardinality = [1], fvalues = [Fin 1]\<rparr>"

definition phi_zero :: Factor where
  "phi_zero = \<lparr>variables = [(''x1'', [''x1_0''])], cardinality = [1], fvalues = [Fin 0]\<rparr>"

text \<open>\<open>Factor(['x2'], [2], [3, 4])\<close>\<close>

definition phi_x2 :: Factor where
  "phi_x2 =
     \<lparr>variables = [(''x2'', [''x2_0'', ''x2_1''])], cardinality = [2], fvalues = [Fin 3, Fin 4]\<rparr>"

text \<open>
  The vector that the docstring of \<open>divide\<close> prints, to four decimals, and the comparison
  of a result with such a vector: the result is a factor over the given scope whose
  values agree with the vector to four decimals.
\<close>

definition docstring_quotient :: "real list" where
  "docstring_quotient =
     [0, 0.5, 0.6667, 0.75, 4.0, 2.5, 2.0, 1.75, 8.0, 4.5, 3.3333, 2.75]"

definition agrees_to_4 :: "fval \<Rightarrow> real \<Rightarrow> bool" where
  "agrees_to_4 v r = (case v of Fin x \<Rightarrow> \<bar>x - r\<bar> \<le> 0.00005 | NaN \<Rightarrow> False)"

definition result_agrees :: "error + Factor \<Rightarrow> string list \<Rightarrow> real list \<Rightarrow> bool" where
  "result_agrees res vars expected =
     (case res of Inl e \<Rightarrow> False
      | Inr f \<Rightarrow> scope f = vars \<and> list_all2 agrees_to_4 (fvalues f) expected)"

section \<open>Properties\<close>

subsection \<open>The constructor on the examples\<close>

lemma Factor_init_phi_x1x2x3:
  "Factor_init [''x1'', ''x2'', ''x3''] [2, 3, 2]
     [Fin 0, Fin 1, Fin 2, Fin 3, Fin 4, Fin 5, Fin 6, Fin 7, Fin 8, Fin 9, Fin 10, Fin 11]
   = Inr phi_x1x2x3"
  by code_simp

lemma Factor_init_phi_x3x1:
  "Factor_init [''x3'', ''x1''] [2, 2] [Fin 1, Fin 2, Fin 3, Fin 4] = Inr phi_x3x1"
  by code_simp

lemma Factor_init_small:
  "Factor_init [''x1''] [2] [Fin 0, Fin 1] = Inr phi_zero_one"
  "Factor_init [''x1''] [1] [Fin 1] = Inr phi_one"
  "Factor_init [''x1''] [1] [Fin 0] = Inr phi_zero"
  by code_simp+

subsection \<open>Division by a zero cell\<close>

text \<open>
  Claim C1: wherever the denominator's cell is zero, \<open>divide\<close> produces exactly 0 and raises
  nothing, for every numerator, a zero numerator included.

  The code does so for a non-zero numerator only. On \<open>Factor(['x1'], [2], [0, 1])\<close> divided by
  itself the first cell is \<open>0.0/0.0\<close>, which sets the invalid-operation flag and not the
  division-by-zero flag: nothing is raised, the handler does not run, and the cell is
  \<open>nan\<close>.
\<close>

theorem divide_zero_by_zero_is_nan:
  "divide phi_zero_one phi_zero_one =
     Inr \<lparr>variables = [(''x1'', [''x1_0'', ''x1_1''])], cardinality = [2],
          fvalues = [NaN, Fin 1]\<rparr>"
  by code_simp

text \<open>What the handler does give: a finite non-zero numerator over a zero cell is 0.\<close>

lemma cell_value_nonzero_by_zero:
  "x \<noteq> 0 \<Longrightarrow> cell_value D (Fin x) (Fin 0) = Fin 0"
  by (simp add: cell_value_def)

lemma cell_value_zero_by_zero:
  "cell_value D (Fin 0) (Fin 0) = NaN"
  by (simp add: cell_value_def)

subsection \<open>Scenario A: the documented quotient\<close>

text \<open>
  Claim C2, as stated: \<open>\<phi>1.divide(\<phi>2)\<close> for \<open>\<phi>1\<close> over (x1, x2, x3) with values 0..11 and
  \<open>\<phi>2\<close> over (x3, x1) with values 1..4 is the factor over (x1, x2, x3) with values
  [0, 0.5, 0.6667, 0.75, 4.0, 2.5, 2.0, 1.75, 8.0, 4.5, 3.3333, 2.75]. It is not.
\<close>

theorem divide_scenario_A_not_docstring:
  "\<not> result_agrees (divide phi_x1x2x3 phi_x3x1) [''x1'', ''x2'', ''x3''] docstring_quotient"
  by code_simp

text \<open>
  Claim C2, amended: the result is the factor over (x1, x2, x3) with cardinalities (2, 3, 2)
  whose cell \<open>(a, b, c)\<close>, at flat index \<open>6a + 2b + c\<close>, is
  \<open>\<phi>1[6a + 2b + c] / \<phi>2[2c + a]\<close>: the values are
  [0, 1/3, 2, 1, 4, 5/3, 3, 7/4, 4, 9/4, 5, 11/4].
\<close>

theorem divide_scenario_A:
  "divide phi_x1x2x3 phi_x3x1 =
     Inr \<lparr>variables = [(''x1'', [''x1_0'', ''x1_1'']), (''x2'', [''x2_0'', ''x2_1'', ''x2_2'']),
                       (''x3'', [''x3_0'', ''x3_1''])],
          cardinality = [2, 3, 2],
          fvalues = [Fin 0, Fin (1 / 3), Fin 2, Fin 1, Fin 4, Fin (5 / 3), Fin 3, Fin (7 / 4),
                     Fin 4, Fin (9 / 4), Fin 5, Fin (11 / 4)]\<rparr>"
  by code_simp

subsection \<open>Product followed by division\<close>

text \<open>
  Claim C3: \<open>(f1.product(f2)).divide(f2)\<close> is \<open>f1\<close> where \<open>f2\<close> is non-zero and exactly 0
  where \<open>f2\<close> is zero.

  The code gives \<open>nan\<close> at a zero cell of \<open>f2\<close>: for \<open>f1 = Factor(['x1'], [1], [1])\<close> and
  \<open>f2 = Factor(['x1'], [1], [0])\<close> the product's cell is 0, and \<open>0.0/0.0\<close> raises nothing.
\<close>

theorem product_then_divide_zero_cell_is_nan:
  "product phi_one [phi_zero] = Inr phi_zero \<and>
   divide phi_zero phi_zero =
     Inr \<lparr>variables = [(''x1'', [''x1_0''])], cardinality = [1], fvalues = [NaN]\<rparr>"
  by code_simp

subsection \<open>Scenario B: marginalization\<close>

text \<open>
  Claim C5: on \<open>\<phi>\<close> over (x1, x2, x3) with cardinalities (2, 3, 2) and values 0..11,
  \<open>marginalize(['x1', 'x3'])\<close> eliminates x1 and then x3 by summing blocks and leaves the
  factor over (x2) with values [14, 22, 30], the two variables and their cardinalities
  removed. Eliminating x1 alone leaves [6, 8, 10, 12, 14, 16] over (x2, x3).
\<close>

theorem marginalize_scenario_B:
  "marginalize [phi_x1x2x3] 0 [''x1''] True =
     ([\<lparr>variables = [(''x2'', [''x2_0'', ''x2_1'', ''x2_2'']), (''x3'', [''x3_0'', ''x3_1''])],
        cardinality = [3, 2],
        fvalues = [Fin 6, Fin 8, Fin 10, Fin 12, Fin 14, Fin 16]\<rparr>], Inr None) \<and>
   marginalize [phi_x1x2x3] 0 [''x1'', ''x3''] True =
     ([\<lparr>variables = [(''x2'', [''x2_0'', ''x2_1'', ''x2_2''])],
        cardinality = [3],
        fvalues = [Fin 14, Fin 22, Fin 30]\<rparr>], Inr None)"
  by code_simp

subsection \<open>Scenario C: reduction\<close>

text \<open>
  Claim C7: on the same \<open>\<phi>\<close>, \<open>reduce(['x1_0', 'x2_0'])\<close> selects the block of the state
  fixed for each variable, removes x1 and x2 from the scope and leaves the factor over
  (x3) with values [0, 1]. Fixing x1 alone leaves [0, 1, 2, 3, 4, 5] over (x2, x3).
\<close>

theorem reduce_scenario_C:
  "reduce [phi_x1x2x3] 0 [''x1_0''] True =
     ([\<lparr>variables = [(''x2'', [''x2_0'', ''x2_1'', ''x2_2'']), (''x3'', [''x3_0'', ''x3_1''])],
        cardinality = [3, 2],
        fvalues = [Fin 0, Fin 1, Fin 2, Fin 3, Fin 4, Fin 5]\<rparr>], Inr None) \<and>
   reduce [phi_x1x2x3] 0 [''x1_0'', ''x2_0''] True =
     ([\<lparr>variables = [(''x3'', [''x3_0'', ''x3_1''])],
        cardinality = [2],
        fvalues = [Fin 0, Fin 1]\<rparr>], Inr None)"
  by code_simp

subsection \<open>No atomicity of in-place reduction\<close>

text \<open>
  Claim C10: in-place \<open>reduce\<close> checks and applies the tokens one at a time. When the first
  token is valid and a later one fails its check (no underscore, a variable not in scope,
  a state beyond the cardinality), the call raises and the receiver keeps the first
  reduction: x1 is gone from the scope and the buffer is the selected block.
\<close>

theorem reduce_inplace_not_atomic:
  "reduce [phi_x1x2x3] 0 [''x1_0'', ''bad''] True =
     ([\<lparr>variables = [(''x2'', [''x2_0'', ''x2_1'', ''x2_2'']), (''x3'', [''x3_0'', ''x3_1''])],
        cardinality = [3, 2],
        fvalues = [Fin 0, Fin 1, Fin 2, Fin 3, Fin 4, Fin 5]\<rparr>],
      Inl (TypeError ''Values should be in the form of variablename_index'')) \<and>
   reduce [phi_x1x2x3] 0 [''x1_0'', ''x9_0''] True =
     ([\<lparr>variables = [(''x2'', [''x2_0'', ''x2_1'', ''x2_2'']), (''x3'', [''x3_0'', ''x3_1''])],
        cardinality = [3, 2],
        fvalues = [Fin 0, Fin 1, Fin 2, Fin 3, Fin 4, Fin 5]\<rparr>],
      Inl (ScopeError ''x9 not in scope'')) \<and>
   reduce [phi_x1x2x3] 0 [''x1_0'', ''x2_7''] True =
     ([\<lparr>variables = [(''x2'', [''x2_0'', ''x2_1'', ''x2_2'']), (''x3'', [''x3_0'', ''x3_1''])],
        cardinality = [3, 2],
        fvalues = [Fin 0, Fin 1, Fin 2, Fin 3, Fin 4, Fin 5]\<rparr>],
      Inl (SizeError ''Value is greater than max possible value''))"
  by code_simp

subsection \<open>Well-formed examples\<close>

lemma wf_factor_examples:
  "wf_factor phi_x1x2x3" "wf_factor phi_x3x1" "wf_factor phi_zero_one" "wf_factor phi_x2"
  by code_simp+

subsection \<open>Mixed-radix place values\<close>

lemma cumprod_from_snoc:
  "cumprod_from acc (xs @ [x]) = cumprod_from acc xs @ [acc * prod_list xs * x]"
  by (induction xs arbitrary: acc) (simp_all add: mult.assoc)

lemma length_cumprod_from [simp]: "length (cumprod_from acc xs) = length xs"
  by (induction xs arbitrary: acc) simp_all

lemma rev_cumprod_hd:
  "rev (1 # cumprod_from 1 (rev cs)) = prod_list cs # tl (rev (1 # cumprod_from 1 (rev cs)))"
proof (cases cs)
  case Nil then show ?thesis by simp
next
  case (Cons c cs')
  then show ?thesis by (simp add: cumprod_from_snoc mult.commute)
qed

lemma phi_cumprod_Cons: "phi_cumprod (c # cs) = prod_list cs # phi_cumprod cs"
proof -
  have "phi_cumprod (c # cs) = rev (1 # cumprod_from 1 (rev cs))"
    by (simp add: phi_cumprod_def np_cumprod_def cumprod_from_snoc)
  also have "\<dots> = prod_list cs # phi_cumprod cs"
    using rev_cumprod_hd[of cs] by (simp add: phi_cumprod_def np_cumprod_def)
  finally show ?thesis .
qed

lemma phi_cumprod_strides: "phi_cumprod cs = strides cs"
  by (induction cs) (simp_all add: phi_cumprod_Cons, simp add: phi_cumprod_def np_cumprod_def)

lemma length_strides [simp]: "length (strides cs) = length cs"
  by (induction cs) simp_all

lemma strides_snoc: "strides (cs @ [c]) = map (\<lambda>s. s * c) (strides cs) @ [1]"
  by (induction cs) simp_all

lemma prod_list_pos: "(\<forall>c \<in> set cs. 0 < c) \<Longrightarrow> 0 < prod_list (cs :: int list)"
  by (induction cs) simp_all

lemma strides_pos:
  "(\<forall>c \<in> set cs. 0 < c) \<Longrightarrow> s \<in> set (strides cs) \<Longrightarrow> 0 < s"
  by (induction cs) (auto simp: prod_list_pos)

lemma assign_loop_digits:
  "(\<forall>c \<in> set cs. 0 < c) \<Longrightarrow>
   assign_loop (rev cs) ind acc = Inr (map2 (\<lambda>s c. (ind div s) mod c) (strides cs) cs @ acc)"
proof (induction cs arbitrary: ind acc rule: rev_induct)
  case Nil
  then show ?case by simp
next
  case (snoc c cs)
  have c: "0 < c" and cs: "\<forall>c \<in> set cs. 0 < c" using snoc.prems by auto
  have "ind div c div s = ind div (s * c)" if "s \<in> set (strides cs)" for s
    using strides_pos[OF cs that] by (simp add: zdiv_zmult2_eq mult.commute)
  then have eq: "map2 (\<lambda>s c'. (ind div c div s) mod c') (strides cs) cs
          = map2 (\<lambda>s c'. (ind div s) mod c') (map (\<lambda>s. s * c) (strides cs)) cs"
    by (auto simp: zip_map1 case_prod_unfold dest: set_zip_leftD)
  show ?case
    using c snoc.IH[OF cs] eq
    by (simp add: np_mod_def np_floordiv_def strides_snoc)
qed

lemma encode_digits:
  "(\<forall>c \<in> set cs. 0 < c) \<Longrightarrow>
   sum_list (map2 (*) (map2 (\<lambda>s c. (ind div s) mod c) (strides cs) cs) (strides cs))
     = ind mod prod_list cs"
proof (induction cs)
  case Nil
  then show ?case by simp
next
  case (Cons c cs)
  have c: "0 < c" and cs: "\<forall>c \<in> set cs. 0 < c" using Cons.prems by auto
  have "ind mod (prod_list cs * c) = prod_list cs * (ind div prod_list cs mod c) + ind mod prod_list cs"
    using c by (simp add: zmod_zmult2_eq)
  then show ?case
    using Cons.IH[OF cs] by (simp add: mult.commute)
qed

lemma digits_in_range:
  "(\<forall>c \<in> set cs. 0 < c) \<Longrightarrow>
   list_all2 (\<lambda>d c. 0 \<le> d \<and> d < c) (map2 (\<lambda>s c. (ind div s) mod c) (strides cs) cs) cs"
  by (induction cs) simp_all

lemma mapM_err_all_Inr:
  "(\<And>x. x \<in> set xs \<Longrightarrow> g x = Inr (h x)) \<Longrightarrow> mapM_err g xs = Inr (map h xs)"
  by (induction xs) simp_all

lemma py_index_nth:
  "0 \<le> i \<Longrightarrow> i < int (length xs) \<Longrightarrow> py_index xs i = Inr (xs ! nat i)"
  by (simp add: py_index_def norm_index_def)

lemma state_labels_index:
  "0 \<le> d \<Longrightarrow> d < c \<Longrightarrow> py_index (state_labels v c) d = Inr (v @ ''_'' @ str_int d)"
  by (simp add: py_index_nth state_labels_def py_range_def)

lemma np_take_range:
  "np_take xs (py_range (int (length xs))) = Inr xs"
proof -
  have "mapM_err (py_index xs) (py_range (int (length xs))) = Inr (map (\<lambda>i. xs ! nat i) (py_range (int (length xs))))"
    by (rule mapM_err_all_Inr) (auto simp: py_range_def py_index_nth)
  also have "map (\<lambda>i. xs ! nat i) (py_range (int (length xs))) = xs"
    by (simp add: py_range_def map_nth o_def)
  finally show ?thesis by (simp add: np_take_def)
qed

subsection \<open>Labels of a well-formed factor\<close>

lemma od_get_wf:
  assumes "wf_factor f" "k < length (cardinality f)"
  shows "od_get (variables f) (od_keys (variables f) ! k)
         = Inr (state_labels (od_keys (variables f) ! k) (cardinality f ! k))"
proof -
  let ?ks = "od_keys (variables f)" and ?cs = "cardinality f"
  have len: "length ?ks = length ?cs" using assms(1) by (simp add: wf_factor_def od_keys_def)
  have d: "distinct ?ks" using assms(1) by (simp add: wf_factor_def)
  have v: "variables f = zip ?ks (map (\<lambda>(v, c). state_labels v c) (zip ?ks ?cs))"
  proof -
    have "variables f = map (\<lambda>(v, c). (v, state_labels v c)) (zip ?ks ?cs)"
      using assms(1) by (simp add: wf_factor_def)
    also have "\<dots> = zip ?ks (map (\<lambda>(v, c). state_labels v c) (zip ?ks ?cs))"
      using len by (intro nth_equalityI) auto
    finally show ?thesis .
  qed
  have "map_of (zip ?ks (map (\<lambda>(v, c). state_labels v c) (zip ?ks ?cs))) (?ks ! k)
        = Some (map (\<lambda>(v, c). state_labels v c) (zip ?ks ?cs) ! k)"
    using len d assms(2) by (intro map_of_zip_nth) auto
  then have "map_of (variables f) (?ks ! k) = Some (state_labels (?ks ! k) (?cs ! k))"
    using v len assms(2) by simp
  then show ?thesis by (simp add: od_get_def)
qed

lemma assign_labels_wf:
  assumes wf: "wf_factor f"
    and r: "list_all2 (\<lambda>d c. 0 \<le> d \<and> d < c) ds (cardinality f)"
  shows "assign_labels f ds = Inr (map2 (\<lambda>v d. v @ ''_'' @ str_int d) (scope f) ds)"
proof -
  let ?ks = "od_keys (variables f)" and ?cs = "cardinality f"
  have len: "length ?ks = length ?cs" using wf by (simp add: wf_factor_def od_keys_def)
  have lds: "length ds = length ?cs" using r by (simp add: list_all2_lengthD)
  have "mapM_err (\<lambda>(key, val). case od_get (variables f) key of Inl e \<Rightarrow> Inl e
                             | Inr labels \<Rightarrow> py_index labels val) (zip ?ks ds)
        = Inr (map (\<lambda>(v, d). v @ ''_'' @ str_int d) (zip ?ks ds))"
  proof (rule mapM_err_all_Inr)
    fix x assume "x \<in> set (zip ?ks ds)"
    then obtain k where k: "k < length ?cs" "x = (?ks ! k, ds ! k)"
      using len lds by (auto simp: in_set_zip)
    have rng: "0 \<le> ds ! k" "ds ! k < ?cs ! k"
      using r k(1) lds by (auto simp: list_all2_conv_all_nth)
    show "(case x of (key, val) \<Rightarrow> case od_get (variables f) key of Inl e \<Rightarrow> Inl e
                             | Inr labels \<Rightarrow> py_index labels val)
          = Inr (case x of (v, d) \<Rightarrow> v @ ''_'' @ str_int d)"
      using od_get_wf[OF wf k(1)] rng by (simp add: k(2) state_labels_index)
  qed
  then show ?thesis by (simp add: assign_labels_def scope_def)
qed

subsection \<open>Decoding a flat index and encoding it again\<close>

text \<open>
  Claim C4: for a factor and a flat index \<open>i\<close> with \<open>0 \<le> i \<le> product(cardinality) - 1\<close>,
  \<open>assignment(i)\<close> decodes \<open>i\<close> into one state index for each variable, mixed-radix with
  the last variable of the scope as the fastest digit, and encoding these state indices
  again gives \<open>i\<close>.

  The digit of a variable is \<open>(i div s) mod c\<close> for its place value \<open>s\<close> and cardinality
  \<open>c\<close>; the place value of the last variable is 1. \<open>assignment\<close> returns the labels of
  these digits, each digit is a state of its variable, and the flat index that the binary
  combination computes from the digits (\<open>np.sum(index * cumprod)\<close>) is \<open>i\<close>.
\<close>

theorem assignment_round_trip:
  fixes f :: Factor and i :: int
  defines "ds \<equiv> map2 (\<lambda>s c. (i div s) mod c) (phi_cumprod (cardinality f)) (cardinality f)"
  assumes wf: "wf_factor f" and lo: "0 \<le> i" and hi: "i \<le> np_prod (cardinality f) - 1"
  shows "assign_digits f i = Inr ds \<and>
         assignment f [i] = Inr [map2 (\<lambda>v d. v @ ''_'' @ str_int d) (scope f) ds] \<and>
         list_all2 (\<lambda>d c. 0 \<le> d \<and> d < c) ds (cardinality f) \<and>
         cell_index ds (py_range (int (length (cardinality f)))) (phi_cumprod (cardinality f)) = Inr i \<and>
         (cardinality f \<noteq> [] \<longrightarrow> last (phi_cumprod (cardinality f)) = 1 \<and> last ds = i mod last (cardinality f))"
proof -
  let ?cs = "cardinality f"
  have pos: "\<forall>c \<in> set ?cs. 0 < c" using wf by (simp add: wf_factor_def)
  have ds: "ds = map2 (\<lambda>s c. (i div s) mod c) (strides ?cs) ?cs"
    by (simp add: ds_def phi_cumprod_strides)
  have lds: "length ds = length ?cs" by (simp add: ds)
  have A: "assign_digits f i = Inr ds"
    using assign_loop_digits[OF pos, of i "[]"] by (simp add: assign_digits_def ds)
  have R: "list_all2 (\<lambda>d c. 0 \<le> d \<and> d < c) ds ?cs"
    using digits_in_range[OF pos] by (simp add: ds)
  have B: "assignment f [i] = Inr [map2 (\<lambda>v d. v @ ''_'' @ str_int d) (scope f) ds]"
    using hi A assign_labels_wf[OF wf R] by (simp add: assignment_def)
  have "i mod prod_list ?cs = i" using lo hi by (simp add: np_prod_def)
  then have "sum_list (map2 (*) ds (strides ?cs)) = i"
    using encode_digits[OF pos, of i] by (simp add: ds)
  moreover have "np_take ds (py_range (int (length ?cs))) = Inr ds"
    using np_take_range[of ds] by (simp add: lds)
  ultimately have C: "cell_index ds (py_range (int (length ?cs))) (phi_cumprod ?cs) = Inr i"
    by (simp add: cell_index_def np_broadcast_def lds phi_cumprod_strides)
  have D: "last (phi_cumprod ?cs) = 1 \<and> last ds = i mod last ?cs" if "?cs \<noteq> []"
  proof -
    from that obtain cs' c where cs: "?cs = cs' @ [c]"
      by (cases "?cs" rule: rev_cases) auto
    show ?thesis by (simp add: ds cs phi_cumprod_strides strides_snoc)
  qed
  from A B R C D show ?thesis by simp
qed

theorem assignment_round_trip_witness:
  "wf_factor phi_x1x2x3 \<and> (0::int) \<le> 5 \<and> (5::int) \<le> np_prod (cardinality phi_x1x2x3) - 1 \<and>
   assignment phi_x1x2x3 [5] = Inr [[''x1_0'', ''x2_2'', ''x3_1'']] \<and>
   cell_index [0, 2, 1] (py_range 3) (phi_cumprod [2, 3, 2]) = Inr 5"
proof -
  have wf: "wf_factor phi_x1x2x3" by (rule wf_factor_examples)
  have hi: "(5::int) \<le> np_prod (cardinality phi_x1x2x3) - 1" by code_simp
  have c: "cardinality phi_x1x2x3 = [2, 3, 2]" by (simp add: phi_x1x2x3_def)
  have ds: "map2 (\<lambda>s c. (5 div s) mod c) (phi_cumprod [2, 3, 2]) [2, 3, 2] = [0, 2, 1::int]"
    by code_simp
  have lab: "map2 (\<lambda>v d. v @ ''_'' @ str_int d) (scope phi_x1x2x3) [0, 2, 1]
               = [''x1_0'', ''x2_2'', ''x3_1'']"
    by code_simp
  have r: "py_range (int (length [2, 3, 2::int])) = py_range 3" by simp
  from assignment_round_trip[OF wf _ hi] wf hi lab show ?thesis
    by (simp add: c ds r)
qed

subsection \<open>Factors with disjoint scopes\<close>

lemma od_set_fresh: "k \<notin> fst ` set d \<Longrightarrow> od_set d k v = d @ [(k, v)]"
  by (induction d) auto

lemma foldl_od_set_distinct:
  "distinct (map fst d @ vars) \<Longrightarrow>
   foldl (\<lambda>d (variable, c). od_set d variable (state_labels variable c)) d (zip vars cards)
     = d @ map (\<lambda>(v, c). (v, state_labels v c)) (zip vars cards)"
proof (induction vars arbitrary: d cards)
  case Nil
  then show ?case by simp
next
  case (Cons v vars)
  show ?case
  proof (cases cards)
    case Nil
    then show ?thesis by simp
  next
    case (Cons c cards')
    have fresh: "v \<notin> fst ` set d" using Cons.prems by auto
    have d': "distinct (map fst (d @ [(v, state_labels v c)]) @ vars)"
      using Cons.prems by auto
    show ?thesis
      using Cons.IH[OF d', of cards'] by (simp add: Cons od_set_fresh[OF fresh])
  qed
qed

lemma Factor_init_distinct:
  assumes "distinct vars" "length vars = length cards" "int (length vals) = prod_list cards"
  shows "Factor_init vars cards vals =
           Inr \<lparr>variables = map (\<lambda>(v, c). (v, state_labels v c)) (zip vars cards),
                cardinality = cards, fvalues = vals\<rparr>"
  using assms foldl_od_set_distinct[of "[]" vars cards]
  by (simp add: Factor_init_def np_prod_def)

lemma length_concat_rows:
  "length (concat (map (\<lambda>a. map (g a) ys) xs)) = length xs * length ys"
  by (induction xs) simp_all

lemma nth_concat_rows:
  "i < length xs \<Longrightarrow> j < length ys \<Longrightarrow>
   concat (map (\<lambda>a. map (g a) ys) xs) ! (i * length ys + j) = g (xs ! i) (ys ! j)"
proof (induction xs arbitrary: i)
  case Nil
  then show ?case by simp
next
  case (Cons x xs)
  show ?case
  proof (cases i)
    case 0
    then show ?thesis using Cons.prems by (simp add: nth_append)
  next
    case (Suc i')
    then have "i' < length xs" using Cons.prems by simp
    from Cons.IH[OF this Cons.prems(2)] show ?thesis
      by (simp add: Suc nth_append add.assoc)
  qed
qed

lemma wf_variables_append:
  assumes "wf_factor f1" "wf_factor f2"
  shows "map (\<lambda>(v, c). (v, state_labels v c))
           (zip (od_keys (variables f1) @ od_keys (variables f2)) (cardinality f1 @ cardinality f2))
         = variables f1 @ variables f2"
proof -
  have l1: "length (od_keys (variables f1)) = length (cardinality f1)"
    using assms(1) by (simp add: wf_factor_def od_keys_def)
  have "variables f1 = map (\<lambda>(v, c). (v, state_labels v c)) (zip (od_keys (variables f1)) (cardinality f1))"
       "variables f2 = map (\<lambda>(v, c). (v, state_labels v c)) (zip (od_keys (variables f2)) (cardinality f2))"
    using assms by (simp_all add: wf_factor_def)
  then show ?thesis using l1 by simp
qed

text \<open>
  Claim C6: for two factors whose scopes share no variable, \<open>divide\<close> raises the error of an
  undefined operation (\<open>ValueError("factors Division not defined for factors with no common
  scope")\<close>) and returns no factor, while \<open>product\<close> returns the outer product over the
  concatenated scope: cell \<open>(i, j)\<close> holds the product of cell \<open>i\<close> of the first factor and
  cell \<open>j\<close> of the second.
\<close>

theorem disjoint_scope_divide_raises_product_outer:
  assumes disj: "set (scope phi1) \<inter> set (scope phi2) = {}"
  shows "divide phi1 phi2 =
           Inl (ValueError ''factors Division not defined for factors with no common scope'') \<and>
         (wf_factor phi1 \<and> wf_factor phi2 \<longrightarrow>
            product phi1 [phi2] =
              Inr \<lparr>variables = variables phi1 @ variables phi2,
                   cardinality = cardinality phi1 @ cardinality phi2,
                   fvalues = concat (map (\<lambda>value. map (fmul value) (fvalues phi2)) (fvalues phi1))\<rparr> \<and>
            (\<forall>i < length (fvalues phi1). \<forall>j < length (fvalues phi2).
               concat (map (\<lambda>value. map (fmul value) (fvalues phi2)) (fvalues phi1))
                 ! (i * length (fvalues phi2) + j) = fmul (fvalues phi1 ! i) (fvalues phi2 ! j)))"
proof -
  let ?k1 = "od_keys (variables phi1)" and ?k2 = "od_keys (variables phi2)"
  let ?outer = "concat (map (\<lambda>value. map (fmul value) (fvalues phi2)) (fvalues phi1))"
  have common: "filter (\<lambda>var. var \<in> set ?k2) ?k1 = []"
    using disj by (auto simp: scope_def filter_empty_conv)
  have D: "divide phi1 phi2 =
           Inl (ValueError ''factors Division not defined for factors with no common scope'')"
    by (simp add: divide_def factor_divide_def bivar_factor_operation_def Let_def common)
  have M: "product phi1 [phi2] =
             Factor_init (?k1 @ ?k2) (cardinality phi1 @ cardinality phi2) ?outer"
    by (simp add: product_def factor_product_def bivar_factor_operation_def Let_def common
        split: sum.splits)
  have P: "product phi1 [phi2] =
              Inr \<lparr>variables = variables phi1 @ variables phi2,
                   cardinality = cardinality phi1 @ cardinality phi2,
                   fvalues = ?outer\<rparr>" if wf: "wf_factor phi1" "wf_factor phi2"
  proof -
    have dist: "distinct (?k1 @ ?k2)"
      using wf disj by (auto simp: wf_factor_def scope_def)
    have len: "length (?k1 @ ?k2) = length (cardinality phi1 @ cardinality phi2)"
      using wf by (simp add: wf_factor_def od_keys_def)
    have sz: "int (length ?outer) = prod_list (cardinality phi1 @ cardinality phi2)"
      using wf by (simp add: wf_factor_def np_prod_def length_concat_rows)
    show ?thesis
      unfolding M Factor_init_distinct[OF dist len sz]
      by (simp add: wf_variables_append[OF wf])
  qed
  have N: "\<forall>i < length (fvalues phi1). \<forall>j < length (fvalues phi2).
               ?outer ! (i * length (fvalues phi2) + j) = fmul (fvalues phi1 ! i) (fvalues phi2 ! j)"
    by (simp add: nth_concat_rows)
  from D P N show ?thesis by simp
qed

theorem disjoint_scope_witness:
  "set (scope phi_zero_one) \<inter> set (scope phi_x2) = {} \<and>
   divide phi_zero_one phi_x2 =
     Inl (ValueError ''factors Division not defined for factors with no common scope'') \<and>
   product phi_zero_one [phi_x2] =
     Inr \<lparr>variables = [(''x1'', [''x1_0'', ''x1_1'']), (''x2'', [''x2_0'', ''x2_1''])],
          cardinality = [2, 2],
          fvalues = [Fin 0, Fin 0, Fin 3, Fin 4]\<rparr>"
proof -
  have disj: "set (scope phi_zero_one) \<inter> set (scope phi_x2) = {}"
    by (simp add: scope_def od_keys_def phi_zero_one_def phi_x2_def)
  from disjoint_scope_divide_raises_product_outer[OF disj] wf_factor_examples(3,4) disj
  show ?thesis
    by (simp add: phi_zero_one_def phi_x2_def)
qed

subsection \<open>Validation before elimination\<close>

lemma find_hd_filter:
  "find P xs = (if \<exists>x \<in> set xs. P x then Some (hd (filter P xs)) else None)"
  by (induction xs) auto

text \<open>
  Claim C9: \<open>marginalize\<close> checks every requested variable against the scope before it
  eliminates any. If some requested variable is not in the scope, the call raises the
  unknown-variable error (\<open>ScopeError\<close>, naming the first such variable) and the heap is
  what it was: the receiver keeps its scope, cardinalities and values, in in-place mode
  too and whatever other variables the list holds.
\<close>

theorem marginalize_unknown_variable_atomic:
  assumes "v \<in> set vars" and "v \<notin> set (scope (h ! self))"
  shows "marginalize h self vars inplace =
           (h, Inl (ScopeError
                 (hd (filter (\<lambda>variable. variable \<notin> set (scope (h ! self))) vars)
                    @ '' not in scope'')))"
proof -
  have "find (\<lambda>variable. variable \<notin> set (od_keys (variables (h ! self)))) vars
        = Some (hd (filter (\<lambda>variable. variable \<notin> set (od_keys (variables (h ! self)))) vars))"
    using assms by (auto simp: find_hd_filter scope_def)
  then show ?thesis
    by (simp add: marginalize_def Let_def scope_def)
qed

theorem marginalize_unknown_variable_witness:
  "''x9'' \<in> set [''x1'', ''x9'', ''x3''] \<and> ''x9'' \<notin> set (scope ([phi_x1x2x3] ! 0)) \<and>
   marginalize [phi_x1x2x3] 0 [''x1'', ''x9'', ''x3''] True =
     ([phi_x1x2x3], Inl (ScopeError ''x9 not in scope'')) \<and>
   marginalize [phi_x1x2x3] 0 [''x1'', ''x9'', ''x3''] False =
     ([phi_x1x2x3], Inl (ScopeError ''x9 not in scope''))"
proof -
  have a: "''x9'' \<in> set [''x1'', ''x9'', ''x3'']" by simp
  have b: "''x9'' \<notin> set (scope ([phi_x1x2x3] ! 0))"
    by (simp add: scope_def od_keys_def phi_x1x2x3_def)
  have w: "hd (filter (\<lambda>variable. variable \<notin> set (scope ([phi_x1x2x3] ! 0)))
             [''x1'', ''x9'', ''x3'']) = ''x9''"
    by (simp add: scope_def od_keys_def phi_x1x2x3_def)
  from marginalize_unknown_variable_atomic[OF a b, of True]
       marginalize_unknown_variable_atomic[OF a b, of False] a b
  show ?thesis
    unfolding w by simp
qed

subsection \<open>Marginalization of a well-formed factor\<close>

lemma mapM_floordiv_scale:
  "c \<noteq> 0 \<Longrightarrow>
   mapM_err (np_floordiv (c * P)) (cumprod_from (c * a) cs)
     = mapM_err (np_floordiv P) (cumprod_from a cs)"
proof (induction cs arbitrary: a)
  case Nil
  then show ?case by simp
next
  case (Cons x xs)
  from Cons.IH[OF Cons.prems, of "a * x"] Cons.prems show ?case
    by (simp add: np_floordiv_def mult.assoc)
qed

lemma hd_suffix_prods [simp]: "hd (suffix_prods cs) = prod_list cs"
  by (cases cs) simp_all

lemma length_suffix_prods [simp]: "length (suffix_prods cs) = Suc (length cs)"
  by (induction cs) simp_all

lemma cum_cardinality_suffix_prods:
  "(\<forall>c \<in> set cs. c \<noteq> 0) \<Longrightarrow> cum_cardinality cs = Inr (suffix_prods cs)"
proof (induction cs)
  case Nil
  then show ?case by (simp add: cum_cardinality_def np_prod_def np_cumprod_def np_floordiv_def)
next
  case (Cons c cs)
  have c: "c \<noteq> 0" and cs: "\<forall>c \<in> set cs. c \<noteq> 0" using Cons.prems by auto
  let ?P = "prod_list cs"
  have P: "?P \<noteq> 0" using cs by (induction cs) auto
  from Cons.IH[OF cs]
  have ih: "mapM_err (np_floordiv ?P) (cumprod_from 1 cs) = Inr (tl (suffix_prods cs))"
    by (cases cs)
       (auto simp: cum_cardinality_def np_prod_def np_cumprod_def np_floordiv_def
             split: sum.splits if_splits)
  have sp: "suffix_prods cs = ?P # tl (suffix_prods cs)"
    by (cases cs) simp_all
  have "mapM_err (np_floordiv (c * ?P)) (cumprod_from (c * 1) cs)
          = mapM_err (np_floordiv ?P) (cumprod_from 1 cs)"
    by (rule mapM_floordiv_scale[OF c])
  then have "mapM_err (np_floordiv (c * ?P)) (cumprod_from c cs) = Inr (tl (suffix_prods cs))"
    using ih by simp
  then show ?case
    using c sp by (simp add: cum_cardinality_def np_prod_def np_cumprod_def np_floordiv_def)
qed

lemma suffix_prods_nth:
  "k \<le> length cs \<Longrightarrow> suffix_prods cs ! k = prod_list (drop k cs)"
proof (induction cs arbitrary: k)
  case Nil
  then show ?case by simp
next
  case (Cons c cs)
  then show ?case by (cases k) simp_all
qed

lemma list_index_mem:
  "v \<in> set xs \<Longrightarrow> \<exists>k < length xs. list_index xs v = Inr (int k) \<and> xs ! k = v"
proof (induction xs)
  case Nil
  then show ?case by simp
next
  case (Cons x xs)
  show ?case
  proof (cases "x = v")
    case True
    then show ?thesis by auto
  next
    case False
    with Cons obtain k where "k < length xs" "list_index xs v = Inr (int k)" "xs ! k = v"
      by auto
    with False show ?thesis
      by (intro exI[of _ "Suc k"]) simp
  qed
qed

lemma py_range3_blocks:
  assumes "0 < s" "0 \<le> A"
  shows "py_range3 0 (A * s) s = Inr (map (\<lambda>k. int k * s) [0..<nat A])"
proof -
  have "(A * s + s - 1) div s = A"
  proof -
    have "(A * s + s - 1) div s = ((s - 1) + A * s) div s" by (simp add: algebra_simps)
    also have "\<dots> = (s - 1) div s + A" using assms(1) by simp
    also have "(s - 1) div s = 0" using assms(1) by simp
    finally show ?thesis by simp
  qed
  then show ?thesis using assms by (simp add: py_range3_def)
qed

lemma block_indices_wf:
  assumes "0 < s" "0 \<le> A"
  shows "block_indices (A * s) s B
         = Inr (concat (map (\<lambda>a. map (\<lambda>b. int a * s + int b) [0..<nat B]) [0..<nat A]))"
  using py_range3_blocks[OF assms]
  by (simp add: block_indices_def py_range2_def o_def)

lemma mixed_radix_bound:
  fixes x X r S :: int
  assumes "0 \<le> x" "x < X" "0 \<le> r" "r < S"
  shows "0 \<le> x * S + r \<and> x * S + r < X * S"
proof -
  have S: "0 < S" using assms by simp
  have "x * S + r < x * S + S" using assms by simp
  also have "\<dots> = (x + 1) * S" by (simp add: algebra_simps)
  also have "\<dots> \<le> X * S" using assms S by (intro mult_right_mono) simp_all
  finally have "x * S + r < X * S" .
  moreover have "0 \<le> x * S + r" using assms S by simp
  ultimately show ?thesis by simp
qed

lemma np_take_in_range:
  "(\<forall>j \<in> set idx. 0 \<le> j \<and> j < int (length xs)) \<Longrightarrow>
   np_take xs idx = Inr (map (\<lambda>j. xs ! nat j) idx)"
  unfolding np_take_def by (rule mapM_err_all_Inr) (simp add: py_index_nth)

lemma marg_accumulate_ok:
  assumes "length m = length sum_index"
    and "\<forall>i \<in> set is. \<forall>j \<in> set sum_index. 0 \<le> j + i * inner \<and> j + i * inner < int (length vals)"
  shows "\<exists>res. marg_accumulate vals sum_index inner is m = Inr res \<and> length res = length m"
  using assms
proof (induction "is" arbitrary: m)
  case Nil
  then show ?case by simp
next
  case (Cons i rest)
  have t: "np_take vals (map (\<lambda>j. j + i * inner) sum_index)
           = Inr (map (\<lambda>j. vals ! nat j) (map (\<lambda>j. j + i * inner) sum_index))"
    using Cons.prems(2) by (intro np_take_in_range) auto
  let ?block = "map (\<lambda>j. vals ! nat j) (map (\<lambda>j. j + i * inner) sum_index)"
  have a: "np_iadd m ?block fadd = Inr (map2 fadd m ?block)"
    using Cons.prems(1) by (simp add: np_iadd_def)
  have l: "length (map2 fadd m ?block) = length sum_index"
    using Cons.prems(1) by simp
  from Cons.IH[OF l] Cons.prems(2)
  obtain res where "marg_accumulate vals sum_index inner rest (map2 fadd m ?block) = Inr res"
    "length res = length (map2 fadd m ?block)" by auto
  then show ?case using t a Cons.prems(1) by simp
qed

lemma length_blocks:
  "length (concat (map (\<lambda>a. map (g a) [0..<nb]) [0..<na])) = na * nb"
  by (induction na) simp_all

lemma set_blocks:
  "j \<in> set (concat (map (\<lambda>a. map (\<lambda>b. int a * s + int b) [0..<nb]) [0..<na])) \<Longrightarrow>
   \<exists>a < na. \<exists>b < nb. j = int a * s + int b"
  by auto

lemma prod_list_split:
  "k < length cs \<Longrightarrow> prod_list cs = prod_list (take k cs) * (cs ! k * prod_list (drop (Suc k) cs))"
proof -
  assume k: "k < length cs"
  have "cs = take k cs @ cs ! k # drop (Suc k) cs" using k by (simp add: id_take_nth_drop)
  then have "prod_list cs = prod_list (take k cs @ cs ! k # drop (Suc k) cs)" by simp
  then show ?thesis by simp
qed

lemma pos_take: "(\<forall>c \<in> set cs. 0 < c) \<Longrightarrow> \<forall>c \<in> set (take k cs). (0::int) < c"
  by (auto dest: in_set_takeD)

lemma pos_drop: "(\<forall>c \<in> set cs. 0 < c) \<Longrightarrow> \<forall>c \<in> set (drop k cs). (0::int) < c"
  by (auto dest: in_set_dropD)

lemma marginalize_single_variable_ok:
  assumes wf: "wf_factor f" and k: "k < length (cardinality f)"
    and v: "list_index (od_keys (variables f)) v = Inr (int k)"
  shows "\<exists>vals. marginalize_single_variable f v = Inr vals \<and>
           int (length vals) = prod_list (take k (cardinality f) @ drop (Suc k) (cardinality f))"
proof -
  let ?cs = "cardinality f"
  let ?A = "prod_list (take k ?cs)" and ?c = "?cs ! k" and ?B = "prod_list (drop (Suc k) ?cs)"
  have pos: "\<forall>c \<in> set ?cs. 0 < c" using wf by (simp add: wf_factor_def)
  then have nz: "\<forall>c \<in> set ?cs. c \<noteq> 0" by auto
  have A: "0 < ?A" using pos_take[OF pos] by (rule prod_list_pos)
  have B: "0 < ?B" using pos_drop[OF pos] by (rule prod_list_pos)
  have c: "0 < ?c" using pos k by simp
  have s: "0 < ?c * ?B" using c B by simp
  have P: "prod_list ?cs = ?A * (?c * ?B)" using prod_list_split[OF k] .
  have lv: "int (length (fvalues f)) = ?A * (?c * ?B)"
    using wf P by (simp add: wf_factor_def np_prod_def)
  have cum: "cum_cardinality ?cs = Inr (suffix_prods ?cs)"
    by (rule cum_cardinality_suffix_prods[OF nz])
  have i0: "py_index (suffix_prods ?cs) 0 = Inr (?A * (?c * ?B))"
    using suffix_prods_nth[of 0 ?cs] P by (simp add: py_index_nth)
  have dk: "drop k ?cs = ?c # drop (Suc k) ?cs" using k by (simp add: Cons_nth_drop_Suc)
  have ik: "py_index (suffix_prods ?cs) (int k) = Inr (?c * ?B)"
    using suffix_prods_nth[of k ?cs] k dk by (simp add: py_index_nth)
  have ik1: "py_index (suffix_prods ?cs) (int k + 1) = Inr ?B"
    using suffix_prods_nth[of "Suc k" ?cs] k by (simp add: py_index_nth nat_add_distrib)
  let ?si = "concat (map (\<lambda>a. map (\<lambda>b. int a * (?c * ?B) + int b) [0..<nat ?B]) [0..<nat ?A])"
  have bi: "block_indices (?A * (?c * ?B)) (?c * ?B) ?B = Inr ?si"
    using block_indices_wf[OF s, of ?A ?B] A by simp
  have ic: "py_index ?cs (int k) = Inr ?c" using k by (simp add: py_index_nth)
  have dv: "np_floordiv (?A * (?c * ?B)) ?c = Inr (?A * ?B)"
    using c by (simp add: np_floordiv_def)
  have AB: "0 < ?A * ?B" using A B by simp
  have z: "np_zeros (?A * ?B) = Inr (replicate (nat (?A * ?B)) (Fin 0))"
    using AB by (simp add: np_zeros_def del: mult_pos_pos)
  have lsi: "length ?si = nat (?A * ?B)"
    using A B by (simp add: length_blocks nat_mult_distrib)
  have rng: "\<forall>i \<in> set (py_range ?c). \<forall>j \<in> set ?si.
               0 \<le> j + i * ?B \<and> j + i * ?B < int (length (fvalues f))"
  proof (intro ballI)
    fix i j assume i: "i \<in> set (py_range ?c)" and j: "j \<in> set ?si"
    from i have i': "0 \<le> i" "i < ?c" by (auto simp: py_range_def)
    from set_blocks[OF j] obtain a b where ab: "a < nat ?A" "b < nat ?B"
      "j = int a * (?c * ?B) + int b" by blast
    have b': "0 \<le> int b" "int b < ?B" using ab(2) by simp_all
    have a': "0 \<le> int a" "int a < ?A" using ab(1) by simp_all
    from mixed_radix_bound[OF i' b']
    have r: "0 \<le> i * ?B + int b" "i * ?B + int b < ?c * ?B" by simp_all
    from mixed_radix_bound[OF a' r]
    have "0 \<le> int a * (?c * ?B) + (i * ?B + int b)"
         "int a * (?c * ?B) + (i * ?B + int b) < ?A * (?c * ?B)" by simp_all
    then show "0 \<le> j + i * ?B \<and> j + i * ?B < int (length (fvalues f))"
      by (simp add: ab(3) lv add.assoc add.commute)
  qed
  have "length (replicate (nat (?A * ?B)) (Fin 0 :: fval)) = length ?si" using lsi by simp
  from marg_accumulate_ok[OF this rng]
  obtain res where res: "marg_accumulate (fvalues f) ?si ?B (py_range ?c)
                           (replicate (nat (?A * ?B)) (Fin 0)) = Inr res"
    "length res = nat (?A * ?B)" by auto
  have "marginalize_single_variable f v = Inr res"
    by (simp add: marginalize_single_variable_def v cum i0 ik ik1 bi ic dv z res(1))
  moreover have "int (length res) = prod_list (take k ?cs @ drop (Suc k) ?cs)"
    using res(2) A B by simp
  ultimately show ?thesis by blast
qed

lemma filter_distinct_key:
  assumes "distinct (map fst vs)" "k < length vs"
  shows "filter (\<lambda>p. fst p \<noteq> fst (vs ! k)) vs = take k vs @ drop (Suc k) vs"
proof -
  have split: "vs = take k vs @ vs ! k # drop (Suc k) vs"
    using assms(2) by (simp add: id_take_nth_drop)
  have d: "distinct (map fst (take k vs) @ fst (vs ! k) # map fst (drop (Suc k) vs))"
    using assms(1) by (subst (asm) split) simp
  have l: "\<forall>p \<in> set (take k vs). fst p \<noteq> fst (vs ! k)"
  proof
    fix p assume "p \<in> set (take k vs)"
    then have "fst p \<in> set (map fst (take k vs))" by simp
    moreover have "fst (vs ! k) \<notin> set (map fst (take k vs))" using d by simp
    ultimately show "fst p \<noteq> fst (vs ! k)" by metis
  qed
  have r: "\<forall>p \<in> set (drop (Suc k) vs). fst p \<noteq> fst (vs ! k)"
  proof
    fix p assume "p \<in> set (drop (Suc k) vs)"
    then have "fst p \<in> set (map fst (drop (Suc k) vs))" by simp
    moreover have "fst (vs ! k) \<notin> set (map fst (drop (Suc k) vs))" using d by simp
    ultimately show "fst p \<noteq> fst (vs ! k)" by metis
  qed
  have "filter (\<lambda>p. fst p \<noteq> fst (vs ! k)) (take k vs @ vs ! k # drop (Suc k) vs)
        = take k vs @ drop (Suc k) vs"
    using l r by (simp add: filter_id_conv)
  then show ?thesis using split by simp
qed

lemma np_delete_nth:
  "k < length xs \<Longrightarrow> np_delete xs (int k) = Inr (take k xs @ drop (Suc k) xs)"
  by (simp add: np_delete_def norm_index_def)

lemma wf_factor_delete:
  assumes wf: "wf_factor f" and k: "k < length (cardinality f)"
    and lv: "int (length vals) = prod_list (take k (cardinality f) @ drop (Suc k) (cardinality f))"
  shows "wf_factor \<lparr>variables = take k (variables f) @ drop (Suc k) (variables f),
                    cardinality = take k (cardinality f) @ drop (Suc k) (cardinality f),
                    fvalues = vals\<rparr>"
proof -
  let ?vs = "variables f" and ?cs = "cardinality f" and ?ks = "od_keys (variables f)"
  let ?L = "\<lambda>(v, c). (v, state_labels v c)"
  have len: "length ?vs = length ?cs" and lk: "length ?ks = length ?cs"
    using wf by (simp_all add: wf_factor_def od_keys_def)
  have d: "distinct ?ks" using wf by (simp add: wf_factor_def)
  have pos: "\<forall>c \<in> set ?cs. 0 < c" using wf by (simp add: wf_factor_def)
  have vs: "?vs = map ?L (zip ?ks ?cs)" using wf by (simp add: wf_factor_def)
  have keys': "od_keys (take k ?vs @ drop (Suc k) ?vs) = take k ?ks @ drop (Suc k) ?ks"
    by (simp add: od_keys_def take_map drop_map)
  have d': "distinct (take k ?ks @ drop (Suc k) ?ks)"
  proof -
    have "distinct (take k ?ks @ ?ks ! k # drop (Suc k) ?ks)"
      using d k lk by (simp add: id_take_nth_drop[symmetric])
    then show ?thesis by simp
  qed
  have tk: "take k ?vs = map ?L (zip (take k ?ks) (take k ?cs))"
    by (subst vs) (simp add: take_map take_zip)
  have dk: "drop (Suc k) ?vs = map ?L (zip (drop (Suc k) ?ks) (drop (Suc k) ?cs))"
    by (subst vs) (simp add: drop_map drop_zip)
  have lab: "take k ?vs @ drop (Suc k) ?vs
             = map ?L (zip (take k ?ks @ drop (Suc k) ?ks) (take k ?cs @ drop (Suc k) ?cs))"
    using lk by (simp add: tk dk)
  have pos': "\<forall>c \<in> set (take k ?cs @ drop (Suc k) ?cs). 0 < c"
    using pos_take[OF pos, of k] pos_drop[OF pos, of "Suc k"] by auto
  have c1: "distinct (od_keys (take k ?vs @ drop (Suc k) ?vs))"
    using d' by (simp only: keys')
  have c2: "length (take k ?vs @ drop (Suc k) ?vs) = length (take k ?cs @ drop (Suc k) ?cs)"
    using len by simp
  have c4: "take k ?vs @ drop (Suc k) ?vs
            = map ?L (zip (od_keys (take k ?vs @ drop (Suc k) ?vs)) (take k ?cs @ drop (Suc k) ?cs))"
    unfolding keys' by (rule lab)
  have c5: "int (length vals) = np_prod (take k ?cs @ drop (Suc k) ?cs)"
    using lv by (simp only: np_prod_def)
  show ?thesis
    unfolding wf_factor_def Factor.simps
    using c1 c2 pos' c4 c5 by (intro conjI)
qed

lemma marginalize_loop_step:
  assumes wf: "wf_factor f" and v: "v \<in> set (od_keys (variables f))"
  shows "\<exists>f'. marginalize_loop f (v # rest) = marginalize_loop f' rest \<and> wf_factor f' \<and>
               od_keys (variables f') = filter (\<lambda>x. x \<noteq> v) (od_keys (variables f))"
proof -
  let ?vs = "variables f" and ?cs = "cardinality f" and ?ks = "od_keys (variables f)"
  have lk: "length ?ks = length ?cs" and len: "length ?vs = length ?cs"
    using wf by (simp_all add: wf_factor_def od_keys_def)
  have d: "distinct (map fst ?vs)" using wf by (simp add: wf_factor_def od_keys_def)
  from list_index_mem[OF v] obtain k where k: "k < length ?ks"
    "list_index ?ks v = Inr (int k)" "?ks ! k = v" by blast
  have kc: "k < length ?cs" using k(1) lk by simp
  have kv: "k < length ?vs" using kc len by simp
  have fk: "fst (?vs ! k) = v" using k(3) kv by (simp add: od_keys_def)
  from marginalize_single_variable_ok[OF wf kc k(2)] obtain vals where
    vals: "marginalize_single_variable f v = Inr vals"
    "int (length vals) = prod_list (take k ?cs @ drop (Suc k) ?cs)" by blast
  have del: "od_del ?vs v = Inr (take k ?vs @ drop (Suc k) ?vs)"
    using v filter_distinct_key[OF d kv] by (simp add: od_del_def fk)
  let ?f' = "\<lparr>variables = take k ?vs @ drop (Suc k) ?vs,
              cardinality = take k ?cs @ drop (Suc k) ?cs, fvalues = vals\<rparr>"
  have step: "marginalize_loop f (v # rest) = marginalize_loop ?f' rest"
    using vals(1) k(2) del np_delete_nth[OF kc] by (cases f) (simp add: Let_def)
  have keys: "od_keys (variables ?f') = filter (\<lambda>x. x \<noteq> v) ?ks"
  proof -
    have "filter (\<lambda>x. x \<noteq> v) ?ks = map fst (filter (\<lambda>p. fst p \<noteq> v) ?vs)"
      by (simp add: od_keys_def filter_map o_def)
    also have "\<dots> = map fst (take k ?vs @ drop (Suc k) ?vs)"
      using filter_distinct_key[OF d kv] by (simp add: fk)
    finally show ?thesis by (simp add: od_keys_def)
  qed
  from step wf_factor_delete[OF wf kc vals(2)] keys show ?thesis by blast
qed

lemma marginalize_loop_ok:
  assumes "wf_factor f" "distinct vars" "set vars \<subseteq> set (od_keys (variables f))"
  shows "\<exists>f'. marginalize_loop f vars = (f', None) \<and> wf_factor f' \<and>
               od_keys (variables f') = filter (\<lambda>x. x \<notin> set vars) (od_keys (variables f))"
  using assms
proof (induction vars arbitrary: f)
  case Nil
  then show ?case by simp
next
  case (Cons v vars)
  have v: "v \<in> set (od_keys (variables f))" using Cons.prems(3) by simp
  from marginalize_loop_step[OF Cons.prems(1) v, of vars] obtain f1 where
    f1: "marginalize_loop f (v # vars) = marginalize_loop f1 vars" "wf_factor f1"
    "od_keys (variables f1) = filter (\<lambda>x. x \<noteq> v) (od_keys (variables f))" by blast
  have sub: "set vars \<subseteq> set (od_keys (variables f1))"
    using Cons.prems(2,3) by (auto simp: f1(3))
  have dv: "distinct vars" using Cons.prems(2) by simp
  from Cons.IH[OF f1(2) dv sub] obtain f' where
    f': "marginalize_loop f1 vars = (f', None)" "wf_factor f'"
    "od_keys (variables f') = filter (\<lambda>x. x \<notin> set vars) (od_keys (variables f1))" by blast
  have "od_keys (variables f') = filter (\<lambda>x. x \<notin> set (v # vars)) (od_keys (variables f))"
    by (simp add: f'(3) f1(3) conj_commute)
  with f1(1) f'(1,2) show ?case by auto
qed

lemma Factor_init_copy:
  assumes "wf_factor f"
  shows "Factor_init (scope f) (cardinality f) (fvalues f) = Inr f"
proof -
  have d: "distinct (scope f)" and l: "length (scope f) = length (cardinality f)"
    and s: "int (length (fvalues f)) = prod_list (cardinality f)"
    and v: "variables f = map (\<lambda>(v, c). (v, state_labels v c)) (zip (scope f) (cardinality f))"
    using assms by (simp_all add: wf_factor_def scope_def od_keys_def np_prod_def)
  show ?thesis
    unfolding Factor_init_distinct[OF d l s] using v by (cases f) simp
qed

subsection \<open>Reduction of a well-formed factor\<close>

lemma zip_distinct_unique:
  assumes "distinct ks" "length ks = length cs" "(v, c) \<in> set (zip ks cs)" "k < length ks" "ks ! k = v"
  shows "c = cs ! k"
proof -
  from assms(3) obtain j where j: "j < length ks" "ks ! j = v" "cs ! j = c"
    using assms(2) by (auto simp: in_set_zip)
  have "ks ! j = ks ! k" using assms(5) j(2) by simp
  then have "j = k" using assms(1,4) j(1) by (simp add: nth_eq_iff_index_eq)
  then show ?thesis using j(3) by simp
qed

lemma reduce_check_valid:
  assumes wf: "wf_factor f" and val: "valid_token f tok"
  shows "\<exists>k state. reduce_check f tok = Inr (token_var tok, int k, state) \<and>
           k < length (cardinality f) \<and> od_keys (variables f) ! k = token_var tok \<and>
           0 \<le> state \<and> state < cardinality f ! k"
proof -
  let ?ks = "od_keys (variables f)" and ?cs = "cardinality f"
  have lk: "length ?ks = length ?cs" and d: "distinct ?ks"
    using wf by (simp_all add: wf_factor_def od_keys_def)
  from val obtain var s state c where
    u: "CHR ''_'' \<in> set tok" and sp: "py_split tok (CHR ''_'') = [var, s]"
    and pi: "py_int s = Inr state" and st: "0 \<le> state" "state < c"
    and mem: "(var, c) \<in> set (zip ?ks ?cs)"
    by (auto simp: valid_token_def list_ex_iff scope_def split: list.splits sum.splits)
  have tv: "token_var tok = var" by (simp add: token_var_def sp)
  have vin: "var \<in> set ?ks" using mem by (auto dest: set_zip_leftD)
  from list_index_mem[OF vin] obtain k where k: "k < length ?ks"
    "list_index ?ks var = Inr (int k)" "?ks ! k = var" by blast
  have c: "c = ?cs ! k" by (rule zip_distinct_unique[OF d lk mem k(1,3)])
  have kc: "k < length ?cs" using k(1) lk by simp
  have "reduce_check f tok = Inr (var, int k, state)"
    using u sp vin k(2) pi st(2) c kc by (simp add: reduce_check_def py_index_nth)
  then show ?thesis using tv kc k(3) st c by auto
qed

lemma reduce_select_ok:
  assumes wf: "wf_factor f" and k: "k < length (cardinality f)"
    and st: "0 \<le> state" "state < cardinality f ! k"
  shows "\<exists>vals. reduce_select f (int k) state = Inr vals \<and>
           int (length vals) = prod_list (take k (cardinality f) @ drop (Suc k) (cardinality f))"
proof -
  let ?cs = "cardinality f"
  let ?A = "prod_list (take k ?cs)" and ?c = "?cs ! k" and ?B = "prod_list (drop (Suc k) ?cs)"
  have pos: "\<forall>c \<in> set ?cs. 0 < c" using wf by (simp add: wf_factor_def)
  then have nz: "\<forall>c \<in> set ?cs. c \<noteq> 0" by auto
  have A: "0 < ?A" using pos_take[OF pos] by (rule prod_list_pos)
  have B: "0 < ?B" using pos_drop[OF pos] by (rule prod_list_pos)
  have c: "0 < ?c" using pos k by simp
  have s: "0 < ?c * ?B" using c B by simp
  have P: "prod_list ?cs = ?A * (?c * ?B)" using prod_list_split[OF k] .
  have lv: "int (length (fvalues f)) = ?A * (?c * ?B)"
    using wf P by (simp add: wf_factor_def np_prod_def)
  have cum: "cum_cardinality ?cs = Inr (suffix_prods ?cs)"
    by (rule cum_cardinality_suffix_prods[OF nz])
  have i0: "py_index (suffix_prods ?cs) 0 = Inr (?A * (?c * ?B))"
    using suffix_prods_nth[of 0 ?cs] P by (simp add: py_index_nth)
  have dk: "drop k ?cs = ?c # drop (Suc k) ?cs" using k by (simp add: Cons_nth_drop_Suc)
  have ik: "py_index (suffix_prods ?cs) (int k) = Inr (?c * ?B)"
    using suffix_prods_nth[of k ?cs] k dk by (simp add: py_index_nth)
  have ik1: "py_index (suffix_prods ?cs) (int k + 1) = Inr ?B"
    using suffix_prods_nth[of "Suc k" ?cs] k by (simp add: py_index_nth nat_add_distrib)
  let ?si = "concat (map (\<lambda>a. map (\<lambda>b. int a * (?c * ?B) + int b) [0..<nat ?B]) [0..<nat ?A])"
  have bi: "block_indices (?A * (?c * ?B)) (?c * ?B) ?B = Inr ?si"
    using block_indices_wf[OF s, of ?A ?B] A by simp
  have lsi: "length ?si = nat ?A * nat ?B" by (simp add: length_blocks)
  have rng: "\<forall>j \<in> set (map (\<lambda>j. j + state * ?B) ?si). 0 \<le> j \<and> j < int (length (fvalues f))"
  proof
    fix j' assume "j' \<in> set (map (\<lambda>j. j + state * ?B) ?si)"
    then obtain j where j: "j \<in> set ?si" "j' = j + state * ?B" by auto
    from set_blocks[OF j(1)] obtain a b where ab: "a < nat ?A" "b < nat ?B"
      "j = int a * (?c * ?B) + int b" by blast
    have b': "0 \<le> int b" "int b < ?B" using ab(2) by simp_all
    have a': "0 \<le> int a" "int a < ?A" using ab(1) by simp_all
    from mixed_radix_bound[OF st b']
    have r: "0 \<le> state * ?B + int b" "state * ?B + int b < ?c * ?B" by simp_all
    from mixed_radix_bound[OF a' r]
    have "0 \<le> int a * (?c * ?B) + (state * ?B + int b)"
         "int a * (?c * ?B) + (state * ?B + int b) < ?A * (?c * ?B)" by simp_all
    then show "0 \<le> j' \<and> j' < int (length (fvalues f))"
      by (simp add: j(2) ab(3) lv add.assoc add.commute)
  qed
  let ?vals = "map (\<lambda>j. fvalues f ! nat j) (map (\<lambda>j. j + state * ?B) ?si)"
  have t: "np_take (fvalues f) (map (\<lambda>j. j + state * ?B) ?si) = Inr ?vals"
    by (rule np_take_in_range[OF rng])
  have "reduce_select f (int k) state = Inr ?vals"
    by (simp add: reduce_select_def cum i0 ik ik1 bi t)
  moreover have "int (length ?vals) = prod_list (take k ?cs @ drop (Suc k) ?cs)"
    using A B by (simp add: length_blocks)
  ultimately show ?thesis by blast
qed

lemma reduce_step_ok:
  assumes wf: "wf_factor f" and val: "valid_token f tok"
  shows "\<exists>f'. reduce_step f tok = (f', None) \<and> wf_factor f' \<and>
           zip (od_keys (variables f')) (cardinality f')
             = filter (\<lambda>p. fst p \<noteq> token_var tok) (zip (od_keys (variables f)) (cardinality f))"
proof -
  let ?vs = "variables f" and ?cs = "cardinality f" and ?ks = "od_keys (variables f)"
  let ?v = "token_var tok"
  have lk: "length ?ks = length ?cs" and len: "length ?vs = length ?cs"
    using wf by (simp_all add: wf_factor_def od_keys_def)
  have d: "distinct (map fst ?vs)" using wf by (simp add: wf_factor_def od_keys_def)
  from reduce_check_valid[OF wf val] obtain k state where
    chk: "reduce_check f tok = Inr (?v, int k, state)" and kc: "k < length ?cs"
    and kv: "?ks ! k = ?v" and st: "0 \<le> state" "state < ?cs ! k" by blast
  have kvs: "k < length ?vs" using kc len by simp
  have fk: "fst (?vs ! k) = ?v" using kv kvs by (simp add: od_keys_def)
  have vin: "?v \<in> set ?ks" using kv kc lk by (metis nth_mem)
  from reduce_select_ok[OF wf kc st] obtain vals where
    vals: "reduce_select f (int k) state = Inr vals"
    "int (length vals) = prod_list (take k ?cs @ drop (Suc k) ?cs)" by blast
  have del: "od_del ?vs ?v = Inr (take k ?vs @ drop (Suc k) ?vs)"
    using vin filter_distinct_key[OF d kvs] by (simp add: od_del_def fk)
  let ?f' = "\<lparr>variables = take k ?vs @ drop (Suc k) ?vs,
              cardinality = take k ?cs @ drop (Suc k) ?cs, fvalues = vals\<rparr>"
  have step: "reduce_step f tok = (?f', None)"
    using chk vals(1) del np_delete_nth[OF kc] by (cases f) (simp add: reduce_step_def Let_def)
  have dz: "distinct (map fst (zip ?ks ?cs))" using d lk by (simp add: od_keys_def)
  have kz: "k < length (zip ?ks ?cs)" using kc lk by simp
  have fz: "fst (zip ?ks ?cs ! k) = ?v" using kv kc lk by simp
  have "zip (od_keys (variables ?f')) (cardinality ?f')
        = zip (take k ?ks @ drop (Suc k) ?ks) (take k ?cs @ drop (Suc k) ?cs)"
    by (simp add: od_keys_def take_map drop_map)
  also have "\<dots> = take k (zip ?ks ?cs) @ drop (Suc k) (zip ?ks ?cs)"
    using lk by (simp add: take_zip drop_zip)
  also have "\<dots> = filter (\<lambda>p. fst p \<noteq> ?v) (zip ?ks ?cs)"
    using filter_distinct_key[OF dz kz] by (simp only: fz)
  finally have z: "zip (od_keys (variables ?f')) (cardinality ?f')
        = filter (\<lambda>p. fst p \<noteq> ?v) (zip ?ks ?cs)" .
  from step wf_factor_delete[OF wf kc vals(2)] z show ?thesis by blast
qed

lemma valid_token_preserved:
  assumes "valid_token f tok"
    and "token_var tok \<noteq> v"
    and "zip (od_keys (variables f')) (cardinality f')
           = filter (\<lambda>p. fst p \<noteq> v) (zip (od_keys (variables f)) (cardinality f))"
  shows "valid_token f' tok"
  using assms
  by (auto simp: valid_token_def token_var_def scope_def list_ex_iff
           split: list.splits sum.splits)

lemma reduce_loop_ok:
  assumes "wf_factor f" "list_all (valid_token f) toks" "distinct (map token_var toks)"
  shows "\<exists>f'. reduce_loop f toks = (f', None) \<and> wf_factor f'"
  using assms
proof (induction toks arbitrary: f)
  case Nil
  then show ?case by simp
next
  case (Cons t toks)
  have vt: "valid_token f t" using Cons.prems(2) by simp
  from reduce_step_ok[OF Cons.prems(1) vt] obtain f1 where
    f1: "reduce_step f t = (f1, None)" "wf_factor f1"
    "zip (od_keys (variables f1)) (cardinality f1)
       = filter (\<lambda>p. fst p \<noteq> token_var t) (zip (od_keys (variables f)) (cardinality f))"
    by blast
  have "list_all (valid_token f1) toks"
    unfolding list_all_iff
  proof
    fix u assume u: "u \<in> set toks"
    then have "valid_token f u" using Cons.prems(2) by (simp add: list_all_iff)
    moreover have "token_var u \<noteq> token_var t"
    proof -
      have "token_var t \<notin> set (map token_var toks)" using Cons.prems(3) by simp
      moreover have "token_var u \<in> set (map token_var toks)" using u by simp
      ultimately show ?thesis by metis
    qed
    ultimately show "valid_token f1 u" using f1(3) by (rule valid_token_preserved)
  qed
  moreover have "distinct (map token_var toks)" using Cons.prems(3) by simp
  ultimately obtain f' where "reduce_loop f1 toks = (f', None)" "wf_factor f'"
    using Cons.IH[OF f1(2)] by blast
  then show ?case using f1(1) by auto
qed

subsection \<open>Normalization\<close>

lemma fdiv_nonzero: "s \<noteq> Fin 0 \<Longrightarrow> \<exists>y. fdiv x s = Inr y"
  by (cases x; cases s) auto

lemma mapM_err_total:
  "(\<And>x. \<exists>y. g x = Inr y) \<Longrightarrow> \<exists>ys. mapM_err g xs = Inr ys \<and> length ys = length xs"
proof (induction xs)
  case Nil
  then show ?case by simp
next
  case (Cons x xs)
  from Cons.prems obtain y where "g x = Inr y" by blast
  moreover from Cons obtain ys where "mapM_err g xs = Inr ys" "length ys = length xs" by blast
  ultimately show ?case by simp
qed

lemma normalize_values_ok:
  "np_sum vals \<noteq> Fin 0 \<Longrightarrow> \<exists>vs. normalize_values vals = Inr vs \<and> length vs = length vals"
  unfolding normalize_values_def by (rule mapM_err_total) (rule fdiv_nonzero)

subsection \<open>Copy mode and in-place mode\<close>

lemma marginalize_copy_frame:
  "take (length h) (fst (marginalize h self vars False)) = h \<and>
   (\<forall>res. snd (marginalize h self vars False) = Inr res \<longrightarrow>
      res = Some (length h) \<and> length (fst (marginalize h self vars False)) = Suc (length h))"
  by (auto simp: marginalize_def Let_def finish_def split: option.splits sum.splits prod.splits)

lemma reduce_copy_frame:
  "take (length h) (fst (reduce h self toks False)) = h \<and>
   (\<forall>res. snd (reduce h self toks False) = Inr res \<longrightarrow>
      res = Some (length h) \<and> length (fst (reduce h self toks False)) = Suc (length h))"
  by (auto simp: reduce_def Let_def finish_def split: option.splits sum.splits prod.splits)

lemma normalize_copy_frame:
  "take (length h) (fst (normalize h self False)) = h \<and>
   (\<forall>res. snd (normalize h self False) = Inr res \<longrightarrow>
      res = Some (length h) \<and> length (fst (normalize h self False)) = Suc (length h))"
  by (auto simp: normalize_def Let_def split: option.splits sum.splits prod.splits)

lemma marginalize_inplace_frame:
  "length (fst (marginalize h self vars True)) = length h \<and>
   (\<forall>a. a \<noteq> self \<longrightarrow> fst (marginalize h self vars True) ! a = h ! a) \<and>
   (\<forall>res. snd (marginalize h self vars True) = Inr res \<longrightarrow> res = None)"
  by (auto simp: marginalize_def Let_def finish_def split: option.splits sum.splits prod.splits)

lemma reduce_inplace_frame:
  "length (fst (reduce h self toks True)) = length h \<and>
   (\<forall>a. a \<noteq> self \<longrightarrow> fst (reduce h self toks True) ! a = h ! a) \<and>
   (\<forall>res. snd (reduce h self toks True) = Inr res \<longrightarrow> res = None)"
  by (auto simp: reduce_def Let_def finish_def split: option.splits sum.splits prod.splits)

lemma normalize_inplace_frame:
  "length (fst (normalize h self True)) = length h \<and>
   (\<forall>a. a \<noteq> self \<longrightarrow> fst (normalize h self True) ! a = h ! a) \<and>
   (\<forall>res. snd (normalize h self True) = Inr res \<longrightarrow> res = None)"
  by (auto simp: normalize_def Let_def split: option.splits sum.splits prod.splits)

lemma take_eq_nth: "take n xs = ys \<Longrightarrow> i < n \<Longrightarrow> xs ! i = ys ! i"
  by (metis nth_take)

lemma marginalize_returns:
  assumes "wf_factor (h ! self)" "distinct vars" "set vars \<subseteq> set (scope (h ! self))"
  shows "\<exists>f'. wf_factor f' \<and>
           marginalize h self vars False = (h @ [f'], Inr (Some (length h))) \<and>
           marginalize h self vars True = (h[self := f'], Inr None)"
proof -
  have sub: "set vars \<subseteq> set (od_keys (variables (h ! self)))"
    using assms(3) by (simp add: scope_def)
  then have nf: "find (\<lambda>variable. variable \<notin> set (od_keys (variables (h ! self)))) vars = None"
    by (auto simp: find_None_iff)
  from marginalize_loop_ok[OF assms(1,2) sub] obtain f' where
    f': "marginalize_loop (h ! self) vars = (f', None)" "wf_factor f'" by blast
  show ?thesis
    using f' nf Factor_init_copy[OF assms(1)]
    by (auto simp: marginalize_def Let_def finish_def)
qed

lemma reduce_returns:
  assumes "wf_factor (h ! self)" "list_all (valid_token (h ! self)) toks"
    "distinct (map token_var toks)"
  shows "\<exists>f'. wf_factor f' \<and>
           reduce h self toks False = (h @ [f'], Inr (Some (length h))) \<and>
           reduce h self toks True = (h[self := f'], Inr None)"
proof -
  from reduce_loop_ok[OF assms] obtain f' where
    f': "reduce_loop (h ! self) toks = (f', None)" "wf_factor f'" by blast
  show ?thesis
    using f' Factor_init_copy[OF assms(1)]
    by (auto simp: reduce_def Let_def finish_def)
qed

lemma normalize_returns:
  assumes "wf_factor (h ! self)" "np_sum (fvalues (h ! self)) \<noteq> Fin 0"
  shows "\<exists>vs. length vs = length (fvalues (h ! self)) \<and>
           normalize h self False = (h @ [(h ! self)\<lparr>fvalues := vs\<rparr>], Inr (Some (length h))) \<and>
           normalize h self True = (h[self := (h ! self)\<lparr>fvalues := vs\<rparr>], Inr None)"
proof -
  from normalize_values_ok[OF assms(2)] obtain vs where
    "normalize_values (fvalues (h ! self)) = Inr vs" "length vs = length (fvalues (h ! self))"
    by blast
  then show ?thesis
    using Factor_init_copy[OF assms(1)] by (auto simp: normalize_def Let_def)
qed

text \<open>
  Claim C8: \<open>marginalize\<close>, \<open>reduce\<close> and \<open>normalize\<close> in copy mode (\<open>inplace=False\<close>) leave
  every object of the heap as it was, the receiver included, and what they return is the
  address of a newly allocated factor; in in-place mode (\<open>inplace=True\<close>) they allocate
  nothing, change no object but the receiver, and return \<open>None\<close>.

  On a well-formed receiver the calls do return: \<open>marginalize\<close> for distinct variables of
  the scope, \<open>reduce\<close> for valid tokens of distinct variables, \<open>normalize\<close> when the sum of
  the values is not zero. In copy mode the new heap is the old one with the new factor at
  the end; in in-place mode the same factor replaces the receiver.
\<close>

theorem axis_operations_modes:
  assumes "self < length h"
  shows
   "(\<forall>r \<in> {marginalize h self vars False, reduce h self toks False, normalize h self False}.
        take (length h) (fst r) = h \<and> fst r ! self = h ! self \<and>
        (\<forall>res. snd r = Inr res \<longrightarrow> res = Some (length h) \<and> length (fst r) = Suc (length h))) \<and>
    (\<forall>r \<in> {marginalize h self vars True, reduce h self toks True, normalize h self True}.
        length (fst r) = length h \<and> (\<forall>a. a \<noteq> self \<longrightarrow> fst r ! a = h ! a) \<and>
        (\<forall>res. snd r = Inr res \<longrightarrow> res = None)) \<and>
    (wf_factor (h ! self) \<longrightarrow>
       (distinct vars \<and> set vars \<subseteq> set (scope (h ! self)) \<longrightarrow>
          (\<exists>f'. wf_factor f' \<and>
             marginalize h self vars False = (h @ [f'], Inr (Some (length h))) \<and>
             marginalize h self vars True = (h[self := f'], Inr None))) \<and>
       (list_all (valid_token (h ! self)) toks \<and> distinct (map token_var toks) \<longrightarrow>
          (\<exists>f'. wf_factor f' \<and>
             reduce h self toks False = (h @ [f'], Inr (Some (length h))) \<and>
             reduce h self toks True = (h[self := f'], Inr None))) \<and>
       (np_sum (fvalues (h ! self)) \<noteq> Fin 0 \<longrightarrow>
          (\<exists>vs. length vs = length (fvalues (h ! self)) \<and>
             normalize h self False
               = (h @ [(h ! self)\<lparr>fvalues := vs\<rparr>], Inr (Some (length h))) \<and>
             normalize h self True = (h[self := (h ! self)\<lparr>fvalues := vs\<rparr>], Inr None))))"
proof -
  have copy: "fst r ! self = h ! self" if "take (length h) (fst r) = h"
    for r :: "heap \<times> (error + nat option)"
    using take_eq_nth[OF that assms] .
  have frame_copy:
    "\<forall>r \<in> {marginalize h self vars False, reduce h self toks False, normalize h self False}.
        take (length h) (fst r) = h \<and> fst r ! self = h ! self \<and>
        (\<forall>res. snd r = Inr res \<longrightarrow> res = Some (length h) \<and> length (fst r) = Suc (length h))"
    using marginalize_copy_frame[of h self vars] reduce_copy_frame[of h self toks]
      normalize_copy_frame[of h self] copy
    by simp
  have frame_inplace:
    "\<forall>r \<in> {marginalize h self vars True, reduce h self toks True, normalize h self True}.
        length (fst r) = length h \<and> (\<forall>a. a \<noteq> self \<longrightarrow> fst r ! a = h ! a) \<and>
        (\<forall>res. snd r = Inr res \<longrightarrow> res = None)"
    using marginalize_inplace_frame[of h self vars]
      reduce_inplace_frame[of h self toks] normalize_inplace_frame[of h self]
    by simp
  have returns:
    "wf_factor (h ! self) \<longrightarrow>
       (distinct vars \<and> set vars \<subseteq> set (scope (h ! self)) \<longrightarrow>
          (\<exists>f'. wf_factor f' \<and>
             marginalize h self vars False = (h @ [f'], Inr (Some (length h))) \<and>
             marginalize h self vars True = (h[self := f'], Inr None))) \<and>
       (list_all (valid_token (h ! self)) toks \<and> distinct (map token_var toks) \<longrightarrow>
          (\<exists>f'. wf_factor f' \<and>
             reduce h self toks False = (h @ [f'], Inr (Some (length h))) \<and>
             reduce h self toks True = (h[self := f'], Inr None))) \<and>
       (np_sum (fvalues (h ! self)) \<noteq> Fin 0 \<longrightarrow>
          (\<exists>vs. length vs = length (fvalues (h ! self)) \<and>
             normalize h self False
               = (h @ [(h ! self)\<lparr>fvalues := vs\<rparr>], Inr (Some (length h))) \<and>
             normalize h self True = (h[self := (h ! self)\<lparr>fvalues := vs\<rparr>], Inr None)))"
  proof (intro impI conjI)
    assume wf: "wf_factor (h ! self)"
    {
      assume "distinct vars \<and> set vars \<subseteq> set (scope (h ! self))"
      then show "\<exists>f'. wf_factor f' \<and>
             marginalize h self vars False = (h @ [f'], Inr (Some (length h))) \<and>
             marginalize h self vars True = (h[self := f'], Inr None)"
        using marginalize_returns[OF wf, of vars] by simp
    }
    {
      assume "list_all (valid_token (h ! self)) toks \<and> distinct (map token_var toks)"
      then show "\<exists>f'. wf_factor f' \<and>
             reduce h self toks False = (h @ [f'], Inr (Some (length h))) \<and>
             reduce h self toks True = (h[self := f'], Inr None)"
        using reduce_returns[OF wf, of toks] by simp
    }
    {
      assume "np_sum (fvalues (h ! self)) \<noteq> Fin 0"
      then show "\<exists>vs. length vs = length (fvalues (h ! self)) \<and>
             normalize h self False
               = (h @ [(h ! self)\<lparr>fvalues := vs\<rparr>], Inr (Some (length h))) \<and>
             normalize h self True = (h[self := (h ! self)\<lparr>fvalues := vs\<rparr>], Inr None)"
        using normalize_returns[OF wf] by simp
    }
  qed
  from frame_copy frame_inplace returns show ?thesis by (intro conjI)
qed

theorem axis_operations_modes_witness:
  "(0::nat) < length [phi_x1x2x3, phi_x3x1] \<and>
   wf_factor ([phi_x1x2x3, phi_x3x1] ! 0) \<and>
   distinct [''x1''] \<and> set [''x1''] \<subseteq> set (scope ([phi_x1x2x3, phi_x3x1] ! 0)) \<and>
   list_all (valid_token ([phi_x1x2x3, phi_x3x1] ! 0)) [''x1_0''] \<and>
   distinct (map token_var [''x1_0'']) \<and>
   np_sum (fvalues ([phi_x1x2x3, phi_x3x1] ! 0)) \<noteq> Fin 0 \<and>
   marginalize [phi_x1x2x3, phi_x3x1] 0 [''x1''] False =
     ([phi_x1x2x3, phi_x3x1,
       \<lparr>variables = [(''x2'', [''x2_0'', ''x2_1'', ''x2_2'']), (''x3'', [''x3_0'', ''x3_1''])],
        cardinality = [3, 2],
        fvalues = [Fin 6, Fin 8, Fin 10, Fin 12, Fin 14, Fin 16]\<rparr>], Inr (Some 2)) \<and>
   fst (marginalize [phi_x1x2x3, phi_x3x1] 0 [''x1''] False) ! 0 = phi_x1x2x3 \<and>
   fst (reduce [phi_x1x2x3, phi_x3x1] 0 [''x1_0''] False) ! 0 = phi_x1x2x3 \<and>
   fst (normalize [phi_x1x2x3, phi_x3x1] 0 False) ! 0 = phi_x1x2x3 \<and>
   fst (marginalize [phi_x1x2x3, phi_x3x1] 0 [''x1''] True) ! 1 = phi_x3x1 \<and>
   fst (reduce [phi_x1x2x3, phi_x3x1] 0 [''x1_0''] True) ! 1 = phi_x3x1 \<and>
   fst (normalize [phi_x1x2x3, phi_x3x1] 0 True) ! 1 = phi_x3x1 \<and>
   (\<exists>f'. reduce [phi_x1x2x3, phi_x3x1] 0 [''x1_0''] False
            = ([phi_x1x2x3, phi_x3x1, f'], Inr (Some 2))) \<and>
   (\<exists>vs. normalize [phi_x1x2x3, phi_x3x1] 0 False
            = ([phi_x1x2x3, phi_x3x1, phi_x1x2x3\<lparr>fvalues := vs\<rparr>], Inr (Some 2)))"
proof -
  have l: "(0::nat) < length [phi_x1x2x3, phi_x3x1]" by simp
  have wf: "wf_factor ([phi_x1x2x3, phi_x3x1] ! 0)" using wf_factor_examples(1) by simp
  have vs: "distinct [''x1''] \<and> set [''x1''] \<subseteq> set (scope ([phi_x1x2x3, phi_x3x1] ! 0))"
    by (simp add: scope_def od_keys_def phi_x1x2x3_def)
  have tk: "list_all (valid_token ([phi_x1x2x3, phi_x3x1] ! 0)) [''x1_0'']" by code_simp
  have td: "distinct (map token_var [''x1_0''])" by simp
  have sm: "np_sum (fvalues ([phi_x1x2x3, phi_x3x1] ! 0)) \<noteq> Fin 0" by code_simp
  have ev: "marginalize [phi_x1x2x3, phi_x3x1] 0 [''x1''] False =
     ([phi_x1x2x3, phi_x3x1,
       \<lparr>variables = [(''x2'', [''x2_0'', ''x2_1'', ''x2_2'']), (''x3'', [''x3_0'', ''x3_1''])],
        cardinality = [3, 2],
        fvalues = [Fin 6, Fin 8, Fin 10, Fin 12, Fin 14, Fin 16]\<rparr>], Inr (Some 2))"
    by code_simp
  note T = axis_operations_modes[OF l, of "[''x1'']" "[''x1_0'']"]
  note A = T[THEN conjunct1] and B = T[THEN conjunct2, THEN conjunct1]
    and C = T[THEN conjunct2, THEN conjunct2, THEN mp, OF wf]
  from A have fr: "fst (marginalize [phi_x1x2x3, phi_x3x1] 0 [''x1''] False) ! 0 = phi_x1x2x3"
    "fst (reduce [phi_x1x2x3, phi_x3x1] 0 [''x1_0''] False) ! 0 = phi_x1x2x3"
    "fst (normalize [phi_x1x2x3, phi_x3x1] 0 False) ! 0 = phi_x1x2x3"
    by simp_all
  from B have fi: "fst (marginalize [phi_x1x2x3, phi_x3x1] 0 [''x1''] True) ! 1 = phi_x3x1"
    "fst (reduce [phi_x1x2x3, phi_x3x1] 0 [''x1_0''] True) ! 1 = phi_x3x1"
    "fst (normalize [phi_x1x2x3, phi_x3x1] 0 True) ! 1 = phi_x3x1"
    by simp_all
  from C[THEN conjunct2, THEN conjunct1, THEN mp, OF conjI[OF tk td]]
  obtain f' where "reduce [phi_x1x2x3, phi_x3x1] 0 [''x1_0''] False
            = ([phi_x1x2x3, phi_x3x1] @ [f'], Inr (Some (length [phi_x1x2x3, phi_x3x1])))"
    by blast
  then have r: "\<exists>f'. reduce [phi_x1x2x3, phi_x3x1] 0 [''x1_0''] False
            = ([phi_x1x2x3, phi_x3x1, f'], Inr (Some 2))"
    by simp
  from C[THEN conjunct2, THEN conjunct2, THEN mp, OF sm]
  obtain vs where "normalize [phi_x1x2x3, phi_x3x1] 0 False
            = ([phi_x1x2x3, phi_x3x1] @ [([phi_x1x2x3, phi_x3x1] ! 0)\<lparr>fvalues := vs\<rparr>],
               Inr (Some (length [phi_x1x2x3, phi_x3x1])))"
    by blast
  then have n: "\<exists>vs. normalize [phi_x1x2x3, phi_x3x1] 0 False
            = ([phi_x1x2x3, phi_x3x1, phi_x1x2x3\<lparr>fvalues := vs\<rparr>], Inr (Some 2))"
    by (intro exI[of _ vs]) simp
  from l wf vs tk td sm ev fr fi r n show ?thesis by (intro conjI) simp_all
qed

end
